theory Spec2Isabelle
  imports Main
begin

section \<open>Values exchanged with the outside\<close>

text \<open>
  Request bodies are parsed JSON. Numbers are modelled for integers only; a JSON object is
  the association list of its (distinct) keys, in insertion order, as a Python dict is.
\<close>

datatype json =
    JNull
  | JBool bool
  | JInt int
  | JStr string
  | JList "json list"
  | JObj "(string \<times> json) list"

text \<open>Python truthiness, as the operator \<^verbatim>\<open>or\<close> tests it.\<close>

fun truthy :: "json \<Rightarrow> bool" where
  "truthy JNull = False"
| "truthy (JBool b) = b"
| "truthy (JInt i) = (i \<noteq> 0)"
| "truthy (JStr s) = (s \<noteq> [])"
| "truthy (JList xs) = (xs \<noteq> [])"
| "truthy (JObj kvs) = (kvs \<noteq> [])"

text \<open>\<^verbatim>\<open>body.get(key)\<close> and \<^verbatim>\<open>body.get(key, default)\<close>.\<close>

definition dict_get :: "(string \<times> json) list \<Rightarrow> string \<Rightarrow> json" where
  "dict_get body k = (case map_of body k of None \<Rightarrow> JNull | Some v \<Rightarrow> v)"

definition dict_get_default :: "(string \<times> json) list \<Rightarrow> string \<Rightarrow> json \<Rightarrow> json" where
  "dict_get_default body k dflt = (case map_of body k of None \<Rightarrow> dflt | Some v \<Rightarrow> v)"

text \<open>Decimal rendering of integers, as both \<^verbatim>\<open>str\<close> and SQLite's TEXT affinity produce it.\<close>

fun digits_of_nat :: "nat \<Rightarrow> string" where
  "digits_of_nat n =
     (if n < 10 then [char_of (48 + n)]
      else digits_of_nat (n div 10) @ [char_of (48 + n mod 10)])"

declare digits_of_nat.simps [simp del]

definition string_of_int :: "int \<Rightarrow> string" where
  "string_of_int i = (if i < 0 then CHR ''-'' # digits_of_nat (nat (- i)) else digits_of_nat (nat i))"

section \<open>Errors\<close>

datatype table = Emails | Links | Events | IgnoredIps

fun table_name :: "table \<Rightarrow> string" where
  "table_name Emails = ''emails''"
| "table_name Links = ''links''"
| "table_name Events = ''events''"
| "table_name IgnoredIps = ''ignored_ips''"

text \<open>
  The statements a handler sends to the storage layer, by kind and table. They label the
  steps of a request and are what a storage fault (a locked or full database, an I/O error)
  is attached to.
\<close>

datatype stmt =
    Connect
  | Pragma string
  | CreateTable table
  | CreateIndexes
  | Select table
  | Insert table
  | Delete table
  | Commit

datatype error =
    NoSuchTable table           \<comment> \<open>sqlite3.OperationalError: no such table\<close>
  | StorageFault stmt           \<comment> \<open>sqlite3.OperationalError raised by the storage itself\<close>
  | NotNullViolation            \<comment> \<open>sqlite3.IntegrityError: NOT NULL constraint failed\<close>
  | UniqueViolation             \<comment> \<open>sqlite3.IntegrityError: UNIQUE constraint failed\<close>
  | ForeignKeyViolation         \<comment> \<open>sqlite3.IntegrityError: FOREIGN KEY constraint failed\<close>
  | BindError                   \<comment> \<open>a parameter of a type sqlite3 cannot bind\<close>
  | TypeError                   \<comment> \<open>Python TypeError (iterating a value that is not iterable)\<close>
  | NoActiveConnection          \<comment> \<open>a statement on a closed connection\<close>
  | NullPrimaryKey              \<comment> \<open>a NULL bound as an id: no handler does it, and the model has no such row\<close>
  | ZeroDivisionError
  | FileNotFoundError
  | ValidationError             \<comment> \<open>a query parameter outside its declared range\<close>

section \<open>The persisted data model (database.py)\<close>

record email =
  e_id :: string
  e_subject :: string
  e_recipient :: string
  e_created_at :: int

record link =
  l_id :: string
  l_email_id :: string
  l_original_url :: string

datatype event_type = Open | Click

record event =
  ev_id :: nat
  ev_email_id :: string
  ev_link_id :: "string option"
  ev_event_type :: event_type
  ev_timestamp :: int
  ev_ip :: "string option"
  ev_user_agent :: "string option"
  ev_country :: "string option"

text \<open>
  Modelled from the spec: the declaration of the table \<^verbatim>\<open>ignored_ips\<close> is not in the
  source. The spec gives an ignored IP the IP string as its unique identity, an optional
  label and a creation timestamp; the handlers read and write the columns \<^verbatim>\<open>ip\<close>,
  \<^verbatim>\<open>label\<close> and \<^verbatim>\<open>created_at\<close>.
\<close>

record ignored_ip =
  ig_ip :: string
  ig_label :: "string option"
  ig_created_at :: int

text \<open>
  The database file: each table is absent (\<open>None\<close>) or holds its rows in insertion order.
  \<open>events_seq\<close> is the AUTOINCREMENT counter of \<^verbatim>\<open>events\<close>. A timestamp is a number
  of seconds.
\<close>

record db =
  emails :: "email list option"
  links :: "link list option"
  events :: "event list option"
  events_seq :: nat
  ignored_ips :: "ignored_ip list option"

definition empty_db :: db where
  "empty_db = \<lparr>emails = None, links = None, events = None, events_seq = 0, ignored_ips = None\<rparr>"

fun table_exists :: "db \<Rightarrow> table \<Rightarrow> bool" where
  "table_exists d Emails = (emails d \<noteq> None)"
| "table_exists d Links = (links d \<noteq> None)"
| "table_exists d Events = (events d \<noteq> None)"
| "table_exists d IgnoredIps = (ignored_ips d \<noteq> None)"

section \<open>Connections, requests and the world\<close>

datatype step = Acquire | Release | Exec stmt | GeoCall string

text \<open>
  \<open>disk\<close> is the committed content of the database file, \<open>conn\<close> the view of the open
  connection with its uncommitted writes (\<open>None\<close>: no connection is open), \<open>trace\<close> the
  steps taken so far.
\<close>

record world =
  disk :: db
  conn :: "db option"
  trace :: "step list"

datatype geo_reply =
    GeoFailure
  | GeoStatus nat "string option" "string option"

text \<open>
  What a request cannot decide by itself: which statements the storage fails, the clock
  behind CURRENT_TIMESTAMP, the reply of ip-api.com (an exception, or a status code with
  the fields \<^verbatim>\<open>city\<close> and \<^verbatim>\<open>country\<close> of the JSON payload), and the values
  \<^verbatim>\<open>uuid.uuid4()\<close> returns, in call order (128-bit values, read modulo \<open>2 ^ 128\<close>);
  also Python's rendering of a list or dict inside an f-string, which is left uninterpreted, and the content of
  \<^verbatim>\<open>static/index.html\<close> (\<open>None\<close>: the file cannot be read).
\<close>

record env =
  fault :: "stmt \<Rightarrow> bool"
  now :: int
  ip_api :: "string \<Rightarrow> geo_reply"
  uuid4 :: "nat \<Rightarrow> int"
  py_repr :: "json \<Rightarrow> string"
  index_html :: "string option"

type_synonym 'a io = "world \<Rightarrow> (error + 'a) \<times> world"

definition return_io :: "'a \<Rightarrow> 'a io" where
  "return_io x w = (Inr x, w)"

definition raise_io :: "error \<Rightarrow> 'a io" where
  "raise_io e w = (Inl e, w)"

definition bind_io :: "'a io \<Rightarrow> ('a \<Rightarrow> 'b io) \<Rightarrow> 'b io" where
  "bind_io m f w = (case m w of (Inl e, w') \<Rightarrow> (Inl e, w') | (Inr x, w') \<Rightarrow> f x w')"

text \<open>\<^verbatim>\<open>try: ... finally: ...\<close>: the cleanup runs on every exit path.\<close>

definition finally_io :: "'a io \<Rightarrow> (world \<Rightarrow> world) \<Rightarrow> 'a io" where
  "finally_io m cleanup w = (case m w of (r, w') \<Rightarrow> (r, cleanup w'))"

definition log_step :: "step \<Rightarrow> world \<Rightarrow> world" where
  "log_step s w = w\<lparr>trace := trace w @ [s]\<rparr>"

text \<open>
  \<^verbatim>\<open>await db.execute(...)\<close>: a statement is atomic; when it fails the connection's view
  is unchanged.
\<close>

definition execute :: "env \<Rightarrow> stmt \<Rightarrow> (db \<Rightarrow> error + 'a \<times> db) \<Rightarrow> 'a io" where
  "execute en s f w =
     (let w1 = log_step (Exec s) w in
      if fault en s then (Inl (StorageFault s), w1)
      else case conn w1 of
             None \<Rightarrow> (Inl NoActiveConnection, w1)
           | Some d \<Rightarrow>
               (case f d of
                  Inl e \<Rightarrow> (Inl e, w1)
                | Inr (r, d') \<Rightarrow> (Inr r, w1\<lparr>conn := Some d'\<rparr>)))"

definition commit :: "env \<Rightarrow> unit io" where
  "commit en w =
     (let w1 = log_step (Exec Commit) w in
      if fault en Commit then (Inl (StorageFault Commit), w1)
      else case conn w1 of
             None \<Rightarrow> (Inl NoActiveConnection, w1)
           | Some d \<Rightarrow> (Inr (), w1\<lparr>disk := d\<rparr>))"

text \<open>Closing rolls back what was not committed.\<close>

definition close :: "world \<Rightarrow> world" where
  "close w = log_step Release (w\<lparr>conn := None\<rparr>)"

definition pragma :: "db \<Rightarrow> error + unit \<times> db" where
  "pragma d = Inr ((), d)"

definition get_db :: "env \<Rightarrow> unit io" where
  "get_db en w =
     (let w1 = log_step (Exec Connect) w in
      if fault en Connect then (Inl (StorageFault Connect), w1)
      else
        bind_io (execute en (Pragma ''journal_mode=WAL'') pragma) (\<lambda>_.
                 execute en (Pragma ''foreign_keys=ON'') pragma)
          (log_step Acquire (w1\<lparr>conn := Some (disk w1)\<rparr>)))"

subsection \<open>init_db\<close>

definition create_emails :: "db \<Rightarrow> error + unit \<times> db" where
  "create_emails d = Inr ((), case emails d of None \<Rightarrow> d\<lparr>emails := Some []\<rparr> | Some _ \<Rightarrow> d)"

text \<open>A REFERENCES clause does not need its parent table when the child table is created.\<close>

definition create_links :: "db \<Rightarrow> error + unit \<times> db" where
  "create_links d = Inr ((), case links d of None \<Rightarrow> d\<lparr>links := Some []\<rparr> | Some _ \<Rightarrow> d)"

definition create_events :: "db \<Rightarrow> error + unit \<times> db" where
  "create_events d = Inr ((), case events d of None \<Rightarrow> d\<lparr>events := Some []\<rparr> | Some _ \<Rightarrow> d)"

definition create_indexes :: "db \<Rightarrow> error + unit \<times> db" where
  "create_indexes d =
     (case events d of
        None \<Rightarrow> Inl (NoSuchTable Events)
      | Some _ \<Rightarrow> (case links d of None \<Rightarrow> Inl (NoSuchTable Links) | Some _ \<Rightarrow> Inr ((), d)))"

text \<open>
  \<^verbatim>\<open>executescript\<close> runs the statements of the script in order; outside a transaction
  each one is committed as it completes. \<open>init_db\<close> has no \<^verbatim>\<open>finally\<close>: the connection
  is closed only when everything before it succeeded.
\<close>

definition autocommit :: "env \<Rightarrow> stmt \<Rightarrow> (db \<Rightarrow> error + unit \<times> db) \<Rightarrow> unit io" where
  "autocommit en s f =
     bind_io (execute en s f) (\<lambda>_ w. (Inr (), case conn w of None \<Rightarrow> w | Some d \<Rightarrow> w\<lparr>disk := d\<rparr>))"

definition init_db :: "env \<Rightarrow> unit io" where
  "init_db en =
     bind_io (get_db en) (\<lambda>_.
     bind_io (autocommit en (CreateTable Emails) create_emails) (\<lambda>_.
     bind_io (autocommit en (CreateTable Links) create_links) (\<lambda>_.
     bind_io (autocommit en (CreateTable Events) create_events) (\<lambda>_.
     bind_io (autocommit en CreateIndexes create_indexes) (\<lambda>_.
     bind_io (commit en) (\<lambda>_ w.
     (Inr (), close w)))))))"

section \<open>Request metadata (main.py)\<close>

text \<open>
  The headers of a request (names in lower case, as the framework keeps them) and the host
  of \<^verbatim>\<open>request.client\<close>, when there is one.
\<close>

record request =
  headers :: "(string \<times> string) list"
  client_host :: "string option"

definition header_get :: "request \<Rightarrow> string \<Rightarrow> string option" where
  "header_get r name = map_of (headers r) name"

text \<open>The characters \<^verbatim>\<open>str.strip()\<close> removes, among the 256 a header value can hold.\<close>

definition whitespace :: "char \<Rightarrow> bool" where
  "whitespace c = ((of_char c :: nat) \<in> {9, 10, 11, 12, 13, 28, 29, 30, 31, 32, 133, 160})"

definition strip :: "string \<Rightarrow> string" where
  "strip s = rev (dropWhile whitespace (rev (dropWhile whitespace s)))"

text \<open>\<^verbatim>\<open>s.split(",")[0]\<close>: what precedes the first comma.\<close>

definition first_field :: "string \<Rightarrow> string" where
  "first_field s = takeWhile (\<lambda>c. c \<noteq> CHR '','') s"

definition client_ip :: "request \<Rightarrow> string" where
  "client_ip r =
     (let cf = (case header_get r ''cf-connecting-ip'' of None \<Rightarrow> [] | Some v \<Rightarrow> v);
          xff = strip (first_field (case header_get r ''x-forwarded-for'' of None \<Rightarrow> [] | Some v \<Rightarrow> v))
      in if cf \<noteq> [] then cf
         else if xff \<noteq> [] then xff
         else (case client_host r of None \<Rightarrow> [] | Some h \<Rightarrow> h))"

definition user_agent :: "request \<Rightarrow> string" where
  "user_agent r = (case header_get r ''user-agent'' of None \<Rightarrow> [] | Some v \<Rightarrow> v)"

text \<open>
  Best-effort geolocation. No call leaves the process for an empty or local address; any
  exception of the call is swallowed.
\<close>

definition geolocate_ip :: "env \<Rightarrow> string \<Rightarrow> string io" where
  "geolocate_ip en ip w =
     (if ip = [] \<or> ip \<in> set [''127.0.0.1'', ''::1'', ''testclient''] then (Inr [], w)
      else
        (let w1 = log_step (GeoCall ip) w in
         case ip_api en ip of
           GeoFailure \<Rightarrow> (Inr [], w1)
         | GeoStatus code city_field country_field \<Rightarrow>
             if code = 200 then
               (let city = (case city_field of None \<Rightarrow> [] | Some c \<Rightarrow> c);
                    country = (case country_field of None \<Rightarrow> [] | Some c \<Rightarrow> c)
                in if city \<noteq> [] \<and> country \<noteq> [] then (Inr (city @ '', '' @ country), w1)
                   else (Inr country, w1))
             else (Inr [], w1)))"

section \<open>Statements\<close>

definition select_ignored :: "string \<Rightarrow> db \<Rightarrow> error + ignored_ip list \<times> db" where
  "select_ignored ip d =
     (case ignored_ips d of
        None \<Rightarrow> Inl (NoSuchTable IgnoredIps)
      | Some rows \<Rightarrow> Inr (filter (\<lambda>r. ig_ip r = ip) rows, d))"

text \<open>\<^verbatim>\<open>INSERT OR IGNORE INTO emails (id, subject, recipient) VALUES (?, '', '')\<close>\<close>

definition insert_or_ignore_email :: "string \<Rightarrow> int \<Rightarrow> db \<Rightarrow> error + unit \<times> db" where
  "insert_or_ignore_email tracking_id ts d =
     (case emails d of
        None \<Rightarrow> Inl (NoSuchTable Emails)
      | Some rows \<Rightarrow>
          if tracking_id \<in> set (map e_id rows) then Inr ((), d)
          else Inr ((), d\<lparr>emails := Some (rows @
                 [\<lparr>e_id = tracking_id, e_subject = [], e_recipient = [], e_created_at = ts\<rparr>])\<rparr>))"

text \<open>
  \<^verbatim>\<open>INSERT INTO events ...\<close>, with foreign keys enforced: the parent tables must exist,
  the email must exist, and so must the link when there is one. The new id is one more
  than the largest id the table ever held.
\<close>

definition insert_event ::
  "string \<Rightarrow> string option \<Rightarrow> event_type \<Rightarrow> int \<Rightarrow> string \<Rightarrow> string \<Rightarrow> string \<Rightarrow> db \<Rightarrow> error + unit \<times> db"
where
  "insert_event email_id link_id ty ts ip ua country d =
     (case events d of
        None \<Rightarrow> Inl (NoSuchTable Events)
      | Some evs \<Rightarrow>
     (case emails d of
        None \<Rightarrow> Inl (NoSuchTable Emails)
      | Some es \<Rightarrow>
     (case links d of
        None \<Rightarrow> Inl (NoSuchTable Links)
      | Some ls \<Rightarrow>
          if email_id \<notin> set (map e_id es) then Inl ForeignKeyViolation
          else if (case link_id of None \<Rightarrow> False | Some l \<Rightarrow> l \<notin> set (map l_id ls))
          then Inl ForeignKeyViolation
          else
            (let n = Suc (fold max (map ev_id evs) (events_seq d)) in
             Inr ((), d\<lparr>events := Some (evs @
                    [\<lparr>ev_id = n, ev_email_id = email_id, ev_link_id = link_id,
                      ev_event_type = ty, ev_timestamp = ts, ev_ip = Some ip,
                      ev_user_agent = Some ua, ev_country = Some country\<rparr>]),
                   events_seq := n\<rparr>)))))"

definition select_link :: "string \<Rightarrow> db \<Rightarrow> error + link list \<times> db" where
  "select_link link_id d =
     (case links d of
        None \<Rightarrow> Inl (NoSuchTable Links)
      | Some rows \<Rightarrow> Inr (filter (\<lambda>l. l_id l = link_id) rows, d))"

section \<open>Tracking routes\<close>

datatype response =
    Response string string "(string \<times> string) list"  \<comment> \<open>content, media type, headers; status 200\<close>
  | RedirectResponse string nat                       \<comment> \<open>url, status code\<close>
  | JSONResponse "(string \<times> json) list" nat           \<comment> \<open>content, status code\<close>

fun status_code :: "response \<Rightarrow> nat" where
  "status_code (Response _ _ _) = 200"
| "status_code (RedirectResponse _ c) = c"
| "status_code (JSONResponse _ c) = c"

text \<open>
  \<^verbatim>\<open>binascii.a2b_base64\<close> in its default, lenient mode: characters outside the alphabet
  are skipped, padding ends the data once a group holds at least two characters, and
  a group left incomplete at the end is an error. The state is the position in the
  group, the bits left over, and the padding characters seen.
\<close>

definition b64_alphabet :: string where
  "b64_alphabet = ''ABCDEFGHIJKLMNOPQRSTUVWXYZabcdefghijklmnopqrstuvwxyz0123456789+/''"

fun index_of :: "char \<Rightarrow> string \<Rightarrow> nat option" where
  "index_of c [] = None"
| "index_of c (x # xs) = (if c = x then Some 0 else map_option Suc (index_of c xs))"

fun a2b_base64 :: "nat \<Rightarrow> nat \<Rightarrow> nat \<Rightarrow> string \<Rightarrow> string option" where
  "a2b_base64 quad_pos leftchar pads [] = (if quad_pos \<noteq> 0 then None else Some [])"
| "a2b_base64 quad_pos leftchar pads (c # cs) =
     (if c = CHR ''='' then
        (if quad_pos \<ge> 2 \<and> quad_pos + (pads + 1) \<ge> 4 then Some []
         else a2b_base64 quad_pos leftchar (if quad_pos \<ge> 2 then pads + 1 else pads) cs)
      else case index_of c b64_alphabet of
        None \<Rightarrow> a2b_base64 quad_pos leftchar pads cs
      | Some v \<Rightarrow>
          if quad_pos = 0 then a2b_base64 1 v 0 cs
          else if quad_pos = 1 then
            map_option ((#) (char_of (leftchar * 4 + v div 16))) (a2b_base64 2 (v mod 16) 0 cs)
          else if quad_pos = 2 then
            map_option ((#) (char_of (leftchar * 16 + v div 4))) (a2b_base64 3 (v mod 4) 0 cs)
          else
            map_option ((#) (char_of (leftchar * 64 + v))) (a2b_base64 0 0 0 cs))"

definition b64decode :: "string \<Rightarrow> string option" where
  "b64decode s = a2b_base64 0 0 0 s"

definition PIXEL_PNG :: string where
  "PIXEL_PNG =
     (case b64decode (''iVBORw0KGgoAAAANSUhEUgAAAAEAAAABCAYAAAAfFcSJAAAADUlEQVR4'' @
                      ''nGNgYPgPAAEDAQAIicLsAAAABJRU5ErkJggg=='')
      of None \<Rightarrow> [] | Some bytes \<Rightarrow> bytes)"

definition no_cache :: string where
  "no_cache = ''no-store, no-cache, must-revalidate, max-age=0''"

definition track_open :: "env \<Rightarrow> string \<Rightarrow> request \<Rightarrow> response io" where
  "track_open en tracking_id request =
     bind_io (get_db en) (\<lambda>_.
     finally_io
       (let ip = client_ip request in
        bind_io (execute en (Select IgnoredIps) (select_ignored ip)) (\<lambda>ignored.
        if ignored \<noteq> [] then
          return_io (Response PIXEL_PNG ''image/png'' [(''Cache-Control'', no_cache)])
        else
          bind_io (execute en (Insert Emails)
                     (insert_or_ignore_email tracking_id (now en))) (\<lambda>_.
          bind_io (geolocate_ip en ip) (\<lambda>country.
          bind_io (execute en (Insert Events)
                     (insert_event tracking_id None Open (now en) ip (user_agent request) country)) (\<lambda>_.
          bind_io (commit en) (\<lambda>_.
          return_io (Response PIXEL_PNG ''image/png''
            [(''Cache-Control'', no_cache), (''Pragma'', ''no-cache''), (''Expires'', ''0'')])))))))
       close)"

definition track_click :: "env \<Rightarrow> string \<Rightarrow> request \<Rightarrow> response io" where
  "track_click en link_id request =
     bind_io (get_db en) (\<lambda>_.
     finally_io
       (bind_io (execute en (Select Links) (select_link link_id)) (\<lambda>rows.
        case rows of
          [] \<Rightarrow> return_io (JSONResponse [(''error'', JStr ''Link not found'')] 404)
        | lnk # _ \<Rightarrow>
            (let ip = client_ip request in
             bind_io (execute en (Select IgnoredIps) (select_ignored ip)) (\<lambda>ignored.
             bind_io
               (if ignored = [] then
                  bind_io (geolocate_ip en ip) (\<lambda>country.
                  bind_io (execute en (Insert Events)
                             (insert_event (l_email_id lnk) (Some link_id) Click (now en) ip
                                (user_agent request) country)) (\<lambda>_.
                  commit en))
                else return_io ()) (\<lambda>_.
             return_io (RedirectResponse (l_original_url lnk) 302))))))
       close)"

section \<open>Registration\<close>

definition hex_digit :: "int \<Rightarrow> char" where
  "hex_digit n = ''0123456789abcdef'' ! nat (n mod 16)"

text \<open>\<^verbatim>\<open>uuid.uuid4().hex\<close>: the 32 hexadecimal digits of the 128-bit value, highest first.\<close>

definition uuid_hex :: "int \<Rightarrow> string" where
  "uuid_hex u = map (\<lambda>i. hex_digit ((u mod 2 ^ 128) div 16 ^ (31 - i))) [0..<32]"

text \<open>
  How sqlite3 binds a Python value to a column of TEXT affinity: \<^verbatim>\<open>None\<close> is NULL, a
  number is stored as its decimal text (a bool is the int 0 or 1), a list or dict cannot
  be bound.
\<close>

fun bind_text :: "json \<Rightarrow> error + string option" where
  "bind_text JNull = Inr None"
| "bind_text (JBool b) = Inr (Some (if b then ''1'' else ''0''))"
| "bind_text (JInt i) = Inr (Some (string_of_int i))"
| "bind_text (JStr s) = Inr (Some s)"
| "bind_text (JList xs) = Inl BindError"
| "bind_text (JObj kvs) = Inl BindError"

text \<open>A value inside an f-string.\<close>

fun py_str :: "env \<Rightarrow> json \<Rightarrow> string" where
  "py_str en JNull = ''None''"
| "py_str en (JBool b) = (if b then ''True'' else ''False'')"
| "py_str en (JInt i) = string_of_int i"
| "py_str en (JStr s) = s"
| "py_str en (JList xs) = py_repr en (JList xs)"
| "py_str en (JObj kvs) = py_repr en (JObj kvs)"

text \<open>\<^verbatim>\<open>for url in link_urls\<close>: a list yields its items, a string its characters, a dict its keys.\<close>

fun py_iter :: "json \<Rightarrow> error + json list" where
  "py_iter (JList xs) = Inr xs"
| "py_iter (JStr s) = Inr (map (\<lambda>c. JStr [c]) s)"
| "py_iter (JObj kvs) = Inr (map (\<lambda>kv. JStr (fst kv)) kvs)"
| "py_iter JNull = Inl TypeError"
| "py_iter (JBool b) = Inl TypeError"
| "py_iter (JInt i) = Inl TypeError"

text \<open>
  \<^verbatim>\<open>INSERT INTO emails (id, subject, recipient) VALUES (?, ?, ?)
  ON CONFLICT(id) DO UPDATE SET subject=excluded.subject, recipient=excluded.recipient
  WHERE subject = '' OR recipient = ''\<close>
  In the WHERE clause the bare column names are those of the row already stored.
\<close>

definition upsert_row :: "string \<Rightarrow> string \<Rightarrow> string \<Rightarrow> email \<Rightarrow> email" where
  "upsert_row i s r row =
     (if e_id row = i \<and> (e_subject row = [] \<or> e_recipient row = [])
      then row\<lparr>e_subject := s, e_recipient := r\<rparr> else row)"

definition upsert_email :: "json \<Rightarrow> json \<Rightarrow> json \<Rightarrow> int \<Rightarrow> db \<Rightarrow> error + unit \<times> db" where
  "upsert_email email_id subject recipient ts d =
     (case emails d of
        None \<Rightarrow> Inl (NoSuchTable Emails)
      | Some rows \<Rightarrow>
     (case bind_text email_id of Inl e \<Rightarrow> Inl e | Inr i_opt \<Rightarrow>
     (case bind_text subject of Inl e \<Rightarrow> Inl e | Inr s_opt \<Rightarrow>
     (case bind_text recipient of Inl e \<Rightarrow> Inl e | Inr r_opt \<Rightarrow>
     (case s_opt of None \<Rightarrow> Inl NotNullViolation | Some s \<Rightarrow>
     (case r_opt of None \<Rightarrow> Inl NotNullViolation | Some r \<Rightarrow>
     (case i_opt of None \<Rightarrow> Inl NullPrimaryKey | Some i \<Rightarrow>
        if i \<in> set (map e_id rows) then Inr ((), d\<lparr>emails := Some (map (upsert_row i s r) rows)\<rparr>)
        else Inr ((), d\<lparr>emails := Some (rows @
               [\<lparr>e_id = i, e_subject = s, e_recipient = r, e_created_at = ts\<rparr>])\<rparr>))))))))"

text \<open>\<^verbatim>\<open>INSERT INTO links (id, email_id, original_url) VALUES (?, ?, ?)\<close>\<close>

definition insert_link :: "string \<Rightarrow> json \<Rightarrow> json \<Rightarrow> db \<Rightarrow> error + unit \<times> db" where
  "insert_link link_id email_id url d =
     (case links d of
        None \<Rightarrow> Inl (NoSuchTable Links)
      | Some rows \<Rightarrow>
     (case emails d of
        None \<Rightarrow> Inl (NoSuchTable Emails)
      | Some es \<Rightarrow>
     (case bind_text email_id of Inl e \<Rightarrow> Inl e | Inr i_opt \<Rightarrow>
     (case bind_text url of Inl e \<Rightarrow> Inl e | Inr u_opt \<Rightarrow>
     (case i_opt of None \<Rightarrow> Inl NotNullViolation | Some i \<Rightarrow>
     (case u_opt of None \<Rightarrow> Inl NotNullViolation | Some u \<Rightarrow>
        if link_id \<in> set (map l_id rows) then Inl UniqueViolation
        else if i \<notin> set (map e_id es) then Inl ForeignKeyViolation
        else Inr ((), d\<lparr>links := Some (rows @
               [\<lparr>l_id = link_id, l_email_id = i, l_original_url = u\<rparr>])\<rparr>)))))))"

record registration =
  reg_email_id :: json
  reg_pixel_url :: string
  reg_links :: "(json \<times> string) list"   \<comment> \<open>original_url, tracked_url\<close>

text \<open>The loop over the links; \<open>k\<close> counts the calls of \<^verbatim>\<open>uuid4\<close> made so far.\<close>

fun insert_links :: "env \<Rightarrow> json \<Rightarrow> nat \<Rightarrow> json list \<Rightarrow> (json \<times> string) list io" where
  "insert_links en email_id k [] = return_io []"
| "insert_links en email_id k (url # urls) =
     (let link_id = take 10 (uuid_hex (uuid4 en k)) in
      bind_io (execute en (Insert Links) (insert_link link_id email_id url)) (\<lambda>_.
      bind_io (insert_links en email_id (Suc k) urls) (\<lambda>rest.
      return_io ((url, ''/c/'' @ link_id) # rest))))"

definition create_email :: "env \<Rightarrow> (string \<times> json) list \<Rightarrow> registration io" where
  "create_email en body =
     (let supplied = dict_get body ''emailId'';
          email_id = (if truthy supplied then supplied
                      else JStr (take 12 (uuid_hex (uuid4 en 0))));
          k = (if truthy supplied then 0 else 1);
          subject = dict_get_default body ''subject'' (JStr []);
          recipient = dict_get_default body ''recipient'' (JStr []);
          link_urls = dict_get_default body ''links'' (JList [])
      in
      bind_io (get_db en) (\<lambda>_.
      bind_io
        (finally_io
           (bind_io (execute en (Insert Emails)
                       (upsert_email email_id subject recipient (now en))) (\<lambda>_.
            bind_io (\<lambda>w. (py_iter link_urls, w)) (\<lambda>urls.
            bind_io (insert_links en email_id k urls) (\<lambda>link_mappings.
            bind_io (commit en) (\<lambda>_.
            return_io link_mappings)))))
           close) (\<lambda>link_mappings.
      return_io \<lparr>reg_email_id = email_id,
                 reg_pixel_url = ''/t/'' @ py_str en email_id @ ''.png'',
                 reg_links = link_mappings\<rparr>)))"

section \<open>Deletion\<close>

text \<open>
  \<^verbatim>\<open>DELETE FROM emails WHERE id = ?\<close> with foreign keys enforced: the links of a deleted
  email go with it (ON DELETE CASCADE), and so do the events that reference the email or
  one of those links. Nothing cascades when no row is deleted.
\<close>

definition delete_email_stmt :: "string \<Rightarrow> db \<Rightarrow> error + unit \<times> db" where
  "delete_email_stmt email_id d =
     (case emails d of
        None \<Rightarrow> Inl (NoSuchTable Emails)
      | Some es \<Rightarrow>
          if email_id \<notin> set (map e_id es) then Inr ((), d)
          else
            (let dead = (case links d of None \<Rightarrow> []
                         | Some ls \<Rightarrow> map l_id (filter (\<lambda>l. l_email_id l = email_id) ls))
             in Inr ((), d\<lparr>
                  emails := Some (filter (\<lambda>e. e_id e \<noteq> email_id) es),
                  links := map_option (filter (\<lambda>l. l_email_id l \<noteq> email_id)) (links d),
                  events := map_option (filter (\<lambda>ev. ev_email_id ev \<noteq> email_id \<and>
                     (case ev_link_id ev of None \<Rightarrow> True | Some l \<Rightarrow> l \<notin> set dead)))
                     (events d)\<rparr>)))"

definition delete_email :: "env \<Rightarrow> string \<Rightarrow> bool io" where
  "delete_email en email_id =
     bind_io (get_db en) (\<lambda>_.
     bind_io
       (finally_io
          (bind_io (execute en (Delete Emails) (delete_email_stmt email_id)) (\<lambda>_.
           commit en))
          close) (\<lambda>_.
     return_io True))"

section \<open>Analytics\<close>

text \<open>
  SQLite's LIKE: \<^verbatim>\<open>%\<close> matches any run of characters, \<^verbatim>\<open>_\<close> any single one, and
  ASCII letters match without regard to case.
\<close>

definition ascii_lower :: "char \<Rightarrow> char" where
  "ascii_lower c =
     (let n = (of_char c :: nat) in if 65 \<le> n \<and> n \<le> 90 then char_of (n + 32) else c)"

fun like :: "string \<Rightarrow> string \<Rightarrow> bool" where
  "like [] [] = True"
| "like [] (c # cs) = False"
| "like (p # ps) [] = (p = CHR ''%'' \<and> like ps [])"
| "like (p # ps) (c # cs) =
     (if p = CHR ''%'' then like ps (c # cs) \<or> like (p # ps) cs
      else (p = CHR ''_'' \<or> ascii_lower p = ascii_lower c) \<and> like ps cs)"

record email_row =
  r_email :: email
  r_open_count :: nat
  r_click_count :: nat
  r_last_opened :: "int option"

record email_page =
  p_emails :: "email_row list"
  p_total :: nat
  p_page :: int
  p_per_page :: int

definition matches :: "string \<Rightarrow> email \<Rightarrow> bool" where
  "matches search e =
     (search = [] \<or> like (''%'' @ search @ ''%'') (e_subject e)
                  \<or> like (''%'' @ search @ ''%'') (e_recipient e))"

definition count_emails :: "string \<Rightarrow> db \<Rightarrow> error + nat \<times> db" where
  "count_emails search d =
     (case emails d of
        None \<Rightarrow> Inl (NoSuchTable Emails)
      | Some es \<Rightarrow> Inr (length (filter (matches search) es), d))"

definition last_opened :: "event list \<Rightarrow> int option" where
  "last_opened opens = (case opens of [] \<Rightarrow> None | ev # rest \<Rightarrow>
     Some (fold max (map ev_timestamp rest) (ev_timestamp ev)))"

text \<open>
  The listing query. Rows of equal \<^verbatim>\<open>created_at\<close> come in an order SQL leaves open;
  here the later row first.
\<close>

definition select_page :: "string \<Rightarrow> nat \<Rightarrow> nat \<Rightarrow> db \<Rightarrow> error + email_row list \<times> db" where
  "select_page search per_page offset d =
     (case emails d of
        None \<Rightarrow> Inl (NoSuchTable Emails)
      | Some es \<Rightarrow>
     (case events d of
        None \<Rightarrow> Inl (NoSuchTable Events)
      | Some evs \<Rightarrow>
          Inr (take per_page (drop offset (rev (sort_key (\<lambda>r. e_created_at (r_email r))
                 (map (\<lambda>e.
                    (let mine = filter (\<lambda>ev. ev_email_id ev = e_id e) evs in
                     \<lparr>r_email = e,
                      r_open_count = length (filter (\<lambda>ev. ev_event_type ev = Open) mine),
                      r_click_count = length (filter (\<lambda>ev. ev_event_type ev = Click) mine),
                      r_last_opened = last_opened (filter (\<lambda>ev. ev_event_type ev = Open) mine)\<rparr>))
                    (filter (matches search) es))))), d)))"

definition list_emails :: "env \<Rightarrow> int \<Rightarrow> int \<Rightarrow> string \<Rightarrow> email_page io" where
  "list_emails en page per_page search =
     (if page < 1 \<or> per_page < 1 \<or> per_page > 200 then raise_io ValidationError
      else
        bind_io (get_db en) (\<lambda>_.
        finally_io
          (let offset = nat ((page - 1) * per_page) in
           bind_io (execute en (Select Emails) (count_emails search)) (\<lambda>total.
           bind_io (execute en (Select Emails) (select_page search (nat per_page) offset)) (\<lambda>rows.
           return_io \<lparr>p_emails = rows, p_total = total, p_page = page, p_per_page = per_page\<rparr>)))
          close))"

record email_detail =
  d_email :: email
  d_events :: "(event \<times> string option) list"    \<comment> \<open>the event, the clicked link's original_url\<close>
  d_unique_opens :: nat
  d_total_opens :: nat
  d_total_clicks :: nat
  d_link_stats :: "(string \<times> string \<times> nat) list"  \<comment> \<open>id, original_url, click_count\<close>

definition select_email :: "string \<Rightarrow> db \<Rightarrow> error + email list \<times> db" where
  "select_email email_id d =
     (case emails d of
        None \<Rightarrow> Inl (NoSuchTable Emails)
      | Some es \<Rightarrow> Inr (filter (\<lambda>e. e_id e = email_id) es, d))"

text \<open>The timeline: events LEFT JOIN links, most recent first.\<close>

definition select_timeline :: "string \<Rightarrow> db \<Rightarrow> error + (event \<times> string option) list \<times> db" where
  "select_timeline email_id d =
     (case events d of
        None \<Rightarrow> Inl (NoSuchTable Events)
      | Some evs \<Rightarrow>
     (case links d of
        None \<Rightarrow> Inl (NoSuchTable Links)
      | Some ls \<Rightarrow>
          Inr (rev (sort_key (\<lambda>row. ev_timestamp (fst row))
                 (concat (map (\<lambda>ev.
                    (case filter (\<lambda>l. Some (l_id l) = ev_link_id ev) ls of
                       [] \<Rightarrow> [(ev, None)]
                     | ms \<Rightarrow> map (\<lambda>l. (ev, Some (l_original_url l))) ms))
                    (filter (\<lambda>ev. ev_email_id ev = email_id) evs)))), d)))"

text \<open>
  \<^verbatim>\<open>SELECT COUNT(DISTINCT ip) ... WHERE email_id = ? AND event_type = 'open'\<close>:
  COUNT skips NULL.
\<close>

definition select_unique_opens :: "string \<Rightarrow> db \<Rightarrow> error + nat \<times> db" where
  "select_unique_opens email_id d =
     (case events d of
        None \<Rightarrow> Inl (NoSuchTable Events)
      | Some evs \<Rightarrow>
          Inr (length (remdups (List.map_filter ev_ip
                 (filter (\<lambda>ev. ev_email_id ev = email_id \<and> ev_event_type ev = Open) evs))), d))"

definition select_counts :: "string \<Rightarrow> db \<Rightarrow> error + (nat \<times> nat) \<times> db" where
  "select_counts email_id d =
     (case events d of
        None \<Rightarrow> Inl (NoSuchTable Events)
      | Some evs \<Rightarrow>
          (let mine = filter (\<lambda>ev. ev_email_id ev = email_id) evs in
           Inr ((length (filter (\<lambda>ev. ev_event_type ev = Open) mine),
                 length (filter (\<lambda>ev. ev_event_type ev = Click) mine)), d)))"

definition select_link_stats :: "string \<Rightarrow> db \<Rightarrow> error + (string \<times> string \<times> nat) list \<times> db" where
  "select_link_stats email_id d =
     (case links d of
        None \<Rightarrow> Inl (NoSuchTable Links)
      | Some ls \<Rightarrow>
     (case events d of
        None \<Rightarrow> Inl (NoSuchTable Events)
      | Some evs \<Rightarrow>
          Inr (map (\<lambda>l. (l_id l, l_original_url l,
                     length (filter (\<lambda>ev. ev_link_id ev = Some (l_id l) \<and> ev_event_type ev = Click) evs)))
                 (filter (\<lambda>l. l_email_id l = email_id) ls), d)))"

definition get_email :: "env \<Rightarrow> string \<Rightarrow> (response + email_detail) io" where
  "get_email en email_id =
     bind_io (get_db en) (\<lambda>_.
     finally_io
       (bind_io (execute en (Select Emails) (select_email email_id)) (\<lambda>rows.
        case rows of
          [] \<Rightarrow> return_io (Inl (JSONResponse [(''error'', JStr ''Not found'')] 404))
        | row # _ \<Rightarrow>
            bind_io (execute en (Select Events) (select_timeline email_id)) (\<lambda>timeline.
            bind_io (execute en (Select Events) (select_unique_opens email_id)) (\<lambda>unique_opens.
            bind_io (execute en (Select Events) (select_counts email_id)) (\<lambda>counts.
            bind_io (execute en (Select Links) (select_link_stats email_id)) (\<lambda>link_stats.
            return_io (Inr \<lparr>d_email = row, d_events = timeline, d_unique_opens = unique_opens,
                            d_total_opens = fst counts, d_total_clicks = snd counts,
                            d_link_stats = link_stats\<rparr>)))))))
       close)"

text \<open>
  \<open>RoundedPercent a b\<close> stands for the float \<^verbatim>\<open>round(a / b * 100, 1)\<close>; the model does
  not compute floating-point values. \<open>IntZero\<close> is the int \<^verbatim>\<open>0\<close>. Dividing by zero
  raises.
\<close>

datatype rate = IntZero | RoundedPercent nat nat

definition round_percent :: "nat \<Rightarrow> nat \<Rightarrow> error + rate" where
  "round_percent a b = (if b = 0 then Inl ZeroDivisionError else Inr (RoundedPercent a b))"

record stats =
  total_emails :: nat
  total_opens :: nat
  total_clicks :: nat
  emails_opened :: nat
  open_rate :: rate
  activity :: "(int \<times> nat \<times> nat) list"   \<comment> \<open>day, opens, clicks\<close>

definition select_totals :: "db \<Rightarrow> error + (nat \<times> nat \<times> nat) \<times> db" where
  "select_totals d =
     (case emails d of
        None \<Rightarrow> Inl (NoSuchTable Emails)
      | Some es \<Rightarrow>
     (case events d of
        None \<Rightarrow> Inl (NoSuchTable Events)
      | Some evs \<Rightarrow>
          Inr ((length es,
                length (filter (\<lambda>ev. ev_event_type ev = Open) evs),
                length (filter (\<lambda>ev. ev_event_type ev = Click) evs)), d)))"

text \<open>\<^verbatim>\<open>SELECT COUNT(DISTINCT email_id) ... WHERE event_type = 'open'\<close>\<close>

definition select_opened :: "db \<Rightarrow> error + nat \<times> db" where
  "select_opened d =
     (case events d of
        None \<Rightarrow> Inl (NoSuchTable Events)
      | Some evs \<Rightarrow>
          Inr (length (remdups (map ev_email_id (filter (\<lambda>ev. ev_event_type ev = Open) evs))), d))"

text \<open>The activity of the last 30 days, by calendar day (a day is 86400 seconds), oldest first.\<close>

definition day_of :: "int \<Rightarrow> int" where
  "day_of ts = ts div 86400"

definition select_activity :: "int \<Rightarrow> db \<Rightarrow> error + (int \<times> nat \<times> nat) list \<times> db" where
  "select_activity today d =
     (case events d of
        None \<Rightarrow> Inl (NoSuchTable Events)
      | Some evs \<Rightarrow>
          (let recent = filter (\<lambda>ev. today \<le> day_of (ev_timestamp ev) + 30) evs in
           Inr (map (\<lambda>day.
                  (day,
                   length (filter (\<lambda>ev. day_of (ev_timestamp ev) = day \<and> ev_event_type ev = Open) recent),
                   length (filter (\<lambda>ev. day_of (ev_timestamp ev) = day \<and> ev_event_type ev = Click) recent)))
                  (sort (remdups (map (\<lambda>ev. day_of (ev_timestamp ev)) recent))), d)))"

definition get_stats :: "env \<Rightarrow> stats io" where
  "get_stats en =
     bind_io (get_db en) (\<lambda>_.
     finally_io
       (bind_io (execute en (Select Emails) select_totals) (\<lambda>t.
        bind_io (execute en (Select Events) select_opened) (\<lambda>opened.
        bind_io (\<lambda>w. ((if fst t > 0 then round_percent opened (fst t) else Inr IntZero), w)) (\<lambda>rate.
        bind_io (execute en (Select Events) (select_activity (day_of (now en)))) (\<lambda>act.
        return_io \<lparr>total_emails = fst t, total_opens = fst (snd t), total_clicks = snd (snd t),
                   emails_opened = opened, open_rate = rate, activity = act\<rparr>)))))
       close)"

section \<open>Ignored IPs management\<close>

definition select_all_ignored :: "db \<Rightarrow> error + ignored_ip list \<times> db" where
  "select_all_ignored d =
     (case ignored_ips d of
        None \<Rightarrow> Inl (NoSuchTable IgnoredIps)
      | Some rows \<Rightarrow> Inr (rev (sort_key ig_created_at rows), d))"

definition list_ignored_ips :: "env \<Rightarrow> ignored_ip list io" where
  "list_ignored_ips en =
     bind_io (get_db en) (\<lambda>_.
     finally_io (execute en (Select IgnoredIps) select_all_ignored) close)"

text \<open>
  \<^verbatim>\<open>INSERT OR IGNORE INTO ignored_ips (ip, label) VALUES (?, ?)\<close>: a row whose IP is
  already there is skipped without an error.
\<close>

definition insert_or_ignore_ip :: "json \<Rightarrow> json \<Rightarrow> int \<Rightarrow> db \<Rightarrow> error + unit \<times> db" where
  "insert_or_ignore_ip ip label ts d =
     (case ignored_ips d of
        None \<Rightarrow> Inl (NoSuchTable IgnoredIps)
      | Some rows \<Rightarrow>
     (case bind_text ip of Inl e \<Rightarrow> Inl e | Inr i_opt \<Rightarrow>
     (case bind_text label of Inl e \<Rightarrow> Inl e | Inr lbl \<Rightarrow>
     (case i_opt of None \<Rightarrow> Inl NullPrimaryKey | Some i \<Rightarrow>
        if i \<in> set (map ig_ip rows) then Inr ((), d)
        else Inr ((), d\<lparr>ignored_ips := Some (rows @
               [\<lparr>ig_ip = i, ig_label = lbl, ig_created_at = ts\<rparr>])\<rparr>)))))"

definition add_ignored_ip :: "env \<Rightarrow> (string \<times> json) list \<Rightarrow> request \<Rightarrow> json io" where
  "add_ignored_ip en body request =
     (let supplied = dict_get body ''ip'';
          ip = (if truthy supplied then supplied else JStr (client_ip request));
          label = dict_get_default body ''label'' (JStr [])
      in
      bind_io (get_db en) (\<lambda>_.
      bind_io
        (finally_io
           (bind_io (execute en (Insert IgnoredIps) (insert_or_ignore_ip ip label (now en))) (\<lambda>_.
            commit en))
           close) (\<lambda>_.
      return_io ip)))"

definition delete_ignored_stmt :: "string \<Rightarrow> db \<Rightarrow> error + unit \<times> db" where
  "delete_ignored_stmt ip d =
     (case ignored_ips d of
        None \<Rightarrow> Inl (NoSuchTable IgnoredIps)
      | Some rows \<Rightarrow> Inr ((), d\<lparr>ignored_ips := Some (filter (\<lambda>r. ig_ip r \<noteq> ip) rows)\<rparr>))"

definition remove_ignored_ip :: "env \<Rightarrow> string \<Rightarrow> bool io" where
  "remove_ignored_ip en ip =
     bind_io (get_db en) (\<lambda>_.
     bind_io
       (finally_io
          (bind_io (execute en (Delete IgnoredIps) (delete_ignored_stmt ip)) (\<lambda>_.
           commit en))
          close) (\<lambda>_.
     return_io True))"

definition my_ip :: "request \<Rightarrow> string" where
  "my_ip request = client_ip request"

definition read_index :: "env \<Rightarrow> string io" where
  "read_index en =
     (case index_html en of None \<Rightarrow> raise_io FileNotFoundError | Some html \<Rightarrow> return_io html)"

definition dashboard :: "env \<Rightarrow> request \<Rightarrow> string io" where
  "dashboard en request =
     (let ip = client_ip request in
      if ip \<noteq> [] \<and> ip \<notin> set [''127.0.0.1'', ''::1''] then
        bind_io (get_db en) (\<lambda>_.
        bind_io
          (finally_io
             (bind_io (execute en (Insert IgnoredIps)
                         (insert_or_ignore_ip (JStr ip)
                            (JStr ''Auto-detected (dashboard visit)'') (now en))) (\<lambda>_.
              commit en))
             close) (\<lambda>_.
        read_index en))
      else read_index en)"

section \<open>The service as a whole\<close>

datatype api_call =
    Startup
  | TrackOpen string request
  | TrackClick string request
  | CreateEmail "(string \<times> json) list"
  | ListEmails int int string
  | GetEmail string
  | DeleteEmail string
  | GetStats
  | ListIgnoredIps
  | AddIgnoredIp "(string \<times> json) list" request
  | RemoveIgnoredIp string
  | MyIp request
  | Dashboard request

fun perform :: "env \<Rightarrow> api_call \<Rightarrow> world \<Rightarrow> world" where
  "perform en Startup w = snd (init_db en w)"
| "perform en (TrackOpen tracking_id request) w = snd (track_open en tracking_id request w)"
| "perform en (TrackClick link_id request) w = snd (track_click en link_id request w)"
| "perform en (CreateEmail body) w = snd (create_email en body w)"
| "perform en (ListEmails page per_page search) w = snd (list_emails en page per_page search w)"
| "perform en (GetEmail email_id) w = snd (get_email en email_id w)"
| "perform en (DeleteEmail email_id) w = snd (delete_email en email_id w)"
| "perform en GetStats w = snd (get_stats en w)"
| "perform en ListIgnoredIps w = snd (list_ignored_ips en w)"
| "perform en (AddIgnoredIp body request) w = snd (add_ignored_ip en body request w)"
| "perform en (RemoveIgnoredIp ip) w = snd (remove_ignored_ip en ip w)"
| "perform en (MyIp request) w = w"
| "perform en (Dashboard request) w = snd (dashboard en request w)"

text \<open>A history of the service: the calls it served, each with its own environment.\<close>

fun run :: "(env \<times> api_call) list \<Rightarrow> world \<Rightarrow> world" where
  "run [] w = w"
| "run ((en, c) # cs) w = run cs (perform en c w)"

section \<open>Invariants and observations\<close>

definition rows_of :: "'a list option \<Rightarrow> 'a list" where
  "rows_of t = (case t of None \<Rightarrow> [] | Some rows \<Rightarrow> rows)"

text \<open>
  The kind/link invariant of an event: an open references no link; a click references a
  link id that exactly one link row carries, and that row belongs to the event's email.
\<close>

definition kind_link_ok :: "link list \<Rightarrow> event \<Rightarrow> bool" where
  "kind_link_ok ls ev =
     (case ev_event_type ev of
        Open \<Rightarrow> ev_link_id ev = None
      | Click \<Rightarrow>
          (case ev_link_id ev of
             None \<Rightarrow> False
           | Some lid \<Rightarrow>
               (case filter (\<lambda>l. l_id l = lid) ls of
                  [l] \<Rightarrow> l_email_id l = ev_email_id ev
                | _ \<Rightarrow> False)))"

definition kind_link_inv :: "db \<Rightarrow> bool" where
  "kind_link_inv d =
     (distinct (map l_id (rows_of (links d))) \<and>
      list_all (kind_link_ok (rows_of (links d))) (rows_of (events d)))"

text \<open>
  What the primary keys and the enforced foreign keys make true of the file: ids are
  unique, a link's email exists, an event's email exists and so does its link.
\<close>

definition fk_inv :: "db \<Rightarrow> bool" where
  "fk_inv d =
     (distinct (map e_id (rows_of (emails d))) \<and>
      distinct (map l_id (rows_of (links d))) \<and>
      list_all (\<lambda>l. l_email_id l \<in> set (map e_id (rows_of (emails d)))) (rows_of (links d)) \<and>
      list_all (\<lambda>ev. ev_email_id ev \<in> set (map e_id (rows_of (emails d))) \<and>
                     (case ev_link_id ev of None \<Rightarrow> True
                      | Some l \<Rightarrow> l \<in> set (map l_id (rows_of (links d)))))
               (rows_of (events d)))"

text \<open>The steps a call added to the trace.\<close>

definition steps_of :: "world \<Rightarrow> world \<Rightarrow> step list" where
  "steps_of w w' = drop (length (trace w)) (trace w')"

text \<open>
  Reading a trace with the connection state: \<open>geo_calls_outside\<close> holds when every
  geolocation call is made while no connection is open, \<open>geo_calls_inside\<close> when every
  one is made while the connection is open, \<open>held_after\<close> tells whether a connection is
  still open at the end.
\<close>

fun geo_calls_outside :: "bool \<Rightarrow> step list \<Rightarrow> bool" where
  "geo_calls_outside held [] = True"
| "geo_calls_outside held (Acquire # t) = geo_calls_outside True t"
| "geo_calls_outside held (Release # t) = geo_calls_outside False t"
| "geo_calls_outside held (GeoCall ip # t) = (\<not> held \<and> geo_calls_outside held t)"
| "geo_calls_outside held (Exec s # t) = geo_calls_outside held t"

fun geo_calls_inside :: "bool \<Rightarrow> step list \<Rightarrow> bool" where
  "geo_calls_inside held [] = True"
| "geo_calls_inside held (Acquire # t) = geo_calls_inside True t"
| "geo_calls_inside held (Release # t) = geo_calls_inside False t"
| "geo_calls_inside held (GeoCall ip # t) = (held \<and> geo_calls_inside held t)"
| "geo_calls_inside held (Exec s # t) = geo_calls_inside held t"

fun held_after :: "bool \<Rightarrow> step list \<Rightarrow> bool" where
  "held_after held [] = held"
| "held_after held (Acquire # t) = held_after True t"
| "held_after held (Release # t) = held_after False t"
| "held_after held (GeoCall ip # t) = held_after held t"
| "held_after held (Exec s # t) = held_after held t"

text \<open>
  An action preserves a property of the database when, from a world whose file and
  connection view have it, it leads to such a world.
\<close>

definition winv :: "(db \<Rightarrow> bool) \<Rightarrow> world \<Rightarrow> bool" where
  "winv P w = (P (disk w) \<and> (case conn w of None \<Rightarrow> True | Some d \<Rightarrow> P d))"

definition preserves :: "(db \<Rightarrow> bool) \<Rightarrow> 'a io \<Rightarrow> bool" where
  "preserves P m = (\<forall>w. winv P w \<longrightarrow> winv P (snd (m w)))"

text \<open>The row stored for an email id, if there is one.\<close>

definition stored_email :: "db \<Rightarrow> string \<Rightarrow> email option" where
  "stored_email d i = find (\<lambda>e. e_id e = i) (rows_of (emails d))"

text \<open>
  An action runs inside the connection when the steps it adds neither acquire nor release
  it and contain geolocation calls only with the connection open.
\<close>

definition inside :: "'a io \<Rightarrow> bool" where
  "inside m = (\<forall>w. \<exists>t. trace (snd (m w)) = trace w @ t \<and> geo_calls_inside True t \<and> held_after True t)"

text \<open>
  An action keeps the file when it never changes the committed content; it commits last
  when an error leaves the committed content as it was.
\<close>

definition keeps_disk :: "'a io \<Rightarrow> bool" where
  "keeps_disk m = (\<forall>w. disk (snd (m w)) = disk w)"

definition commits_last :: "'a io \<Rightarrow> bool" where
  "commits_last m = (\<forall>w. isl (fst (m w)) \<longrightarrow> disk (snd (m w)) = disk w)"

text \<open>No email row has the empty string as its id.\<close>

definition no_empty_id :: "db \<Rightarrow> bool" where
  "no_empty_id d = ([] \<notin> set (map e_id (rows_of (emails d))))"

text \<open>The two together: the invariant of the database file.\<close>

definition db_inv :: "db \<Rightarrow> bool" where
  "db_inv d = (fk_inv d \<and> kind_link_inv d)"

section \<open>Example environments and states\<close>

definition env_ok :: env where
  "env_ok = \<lparr>fault = (\<lambda>_. False), now = 1000,
             ip_api = (\<lambda>_. GeoStatus 200 (Some ''Paris'') (Some ''France'')),
             uuid4 = (\<lambda>k. (int k + 1) * 2 ^ 96),
             py_repr = (\<lambda>_. []), index_html = Some ''<html></html>''\<rparr>"

definition fresh :: world where
  "fresh = \<lparr>disk = empty_db, conn = None, trace = []\<rparr>"

definition mail_client :: request where
  "mail_client = \<lparr>headers = [(''user-agent'', ''Mail/1.0'')], client_host = Some ''8.8.8.8''\<rparr>"

definition ready_db :: db where
  "ready_db = \<lparr>emails = Some [], links = Some [], events = Some [], events_seq = 0,
                ignored_ips = Some []\<rparr>"

definition ready :: world where
  "ready = \<lparr>disk = ready_db, conn = None, trace = []\<rparr>"

definition reg_A :: "(string \<times> json) list" where
  "reg_A = [(''emailId'', JStr ''x''), (''subject'', JStr ''A'')]"

definition reg_B :: "(string \<times> json) list" where
  "reg_B = [(''emailId'', JStr ''x''), (''subject'', JStr ''B'')]"

definition reg_A_full :: "(string \<times> json) list" where
  "reg_A_full = [(''emailId'', JStr ''x''), (''subject'', JStr ''A''), (''recipient'', JStr ''bob@example.org'')]"

definition reg_links :: "(string \<times> json) list" where
  "reg_links = [(''emailId'', JStr ''x''), (''subject'', JStr ''A''),
                (''recipient'', JStr ''bob@example.org''),
                (''links'', JList [JStr ''http://a'', JStr ''http://b''])]"

definition registered :: world where
  "registered = run [(env_ok, CreateEmail reg_links)] ready"

text \<open>Environments in which the storage fails one statement.\<close>

definition env_event_fault :: env where
  "env_event_fault = env_ok\<lparr>fault := (\<lambda>s. s = Insert Events)\<rparr>"

definition env_commit_fault :: env where
  "env_commit_fault = env_ok\<lparr>fault := (\<lambda>s. s = Commit)\<rparr>"

text \<open>A request that arrives through a proxy from 9.9.9.9, and a state that ignores that address.\<close>

definition operator :: request where
  "operator = \<lparr>headers = [(''user-agent'', ''Mozilla/5.0''), (''x-forwarded-for'', ''9.9.9.9, 10.0.0.1'')],
               client_host = Some ''10.0.0.1''\<rparr>"

definition ignoring :: world where
  "ignoring = run [(env_ok, CreateEmail reg_links),
                   (env_ok, AddIgnoredIp [(''ip'', JStr ''9.9.9.9'')] mail_client)] ready"

definition link_a :: link where
  "link_a = \<lparr>l_id = ''0000000100'', l_email_id = ''x'', l_original_url = ''http://a''\<rparr>"

definition reg_empty_id :: "(string \<times> json) list" where
  "reg_empty_id = [(''emailId'', JStr []), (''subject'', JStr ''A''),
                   (''links'', JList [JStr ''http://a''])]"

definition open_event :: "nat \<Rightarrow> string \<Rightarrow> event" where
  "open_event n ip = \<lparr>ev_id = n, ev_email_id = ''x'', ev_link_id = None, ev_event_type = Open,
                       ev_timestamp = 1000, ev_ip = Some ip, ev_user_agent = Some ''Mail/1.0'',
                       ev_country = Some []\<rparr>"

text \<open>An email opened five times from 8.8.8.8 and once from 9.9.9.9.\<close>

definition opened :: world where
  "opened = \<lparr>disk = ready_db\<lparr>
               emails := Some [\<lparr>e_id = ''x'', e_subject = ''A'', e_recipient = ''bob@example.org'',
                                e_created_at = 1000\<rparr>],
               events := Some (map (\<lambda>n. open_event n ''8.8.8.8'') [1, 2, 3, 4, 5] @
                               [open_event 6 ''9.9.9.9'']),
               events_seq := 6\<rparr>,
             conn = None, trace = []\<rparr>"

text \<open>A registration with two links, an open and a click.\<close>

definition session :: "(env \<times> api_call) list" where
  "session = [(env_ok, CreateEmail reg_links), (env_ok, TrackOpen ''x'' mail_client),
              (env_ok, TrackClick ''0000000100'' mail_client)]"

section \<open>Helper lemmas: the combinators\<close>

lemma preserves_return: "preserves P (return_io x)"
  by (simp add: preserves_def return_io_def)

lemma preserves_raise: "preserves P (raise_io e)"
  by (simp add: preserves_def raise_io_def)

lemma preserves_pure: "preserves P (\<lambda>w. (r, w))"
  by (simp add: preserves_def)

lemma preserves_bind:
  assumes "preserves P m" and "\<And>x. preserves P (f x)"
  shows "preserves P (bind_io m f)"
proof -
  have "winv P (snd (bind_io m f w))" if "winv P w" for w
  proof (cases "m w")
    case (Pair r w')
    from assms(1) that have w': "winv P w'"
      using Pair by (auto simp: preserves_def dest!: spec [of _ w])
    show ?thesis
    proof (cases r)
      case (Inl e)
      with Pair w' show ?thesis by (simp add: bind_io_def)
    next
      case (Inr x)
      from assms(2) [of x] w' have "winv P (snd (f x w'))"
        by (simp add: preserves_def)
      with Pair Inr show ?thesis by (simp add: bind_io_def)
    qed
  qed
  then show ?thesis by (simp add: preserves_def)
qed

lemma winv_log_step: "winv P (log_step s w) = winv P w"
  by (simp add: winv_def log_step_def)

lemma winv_close: "winv P w \<Longrightarrow> winv P (close w)"
  by (simp add: winv_def close_def log_step_def)

lemma finally_io_eq: "finally_io m cleanup w = (fst (m w), cleanup (snd (m w)))"
  by (simp add: finally_io_def split: prod.splits)

lemma preserves_finally_close:
  assumes "preserves P m"
  shows "preserves P (finally_io m close)"
  using assms by (simp add: preserves_def finally_io_eq winv_close)

lemma preserves_execute:
  assumes "\<And>d r d'. P d \<Longrightarrow> f d = Inr (r, d') \<Longrightarrow> P d'"
  shows "preserves P (execute en s f)"
  using assms
  by (auto simp: preserves_def execute_def winv_def log_step_def Let_def
           split: option.splits sum.splits)

lemma preserves_commit: "preserves P (commit en)"
  by (auto simp: preserves_def commit_def winv_def log_step_def Let_def split: option.splits)

lemma preserves_geolocate_ip: "preserves P (geolocate_ip en ip)"
  by (auto simp: preserves_def geolocate_ip_def winv_def log_step_def Let_def
           split: geo_reply.splits)

lemma preserves_if:
  "(c \<Longrightarrow> preserves P a) \<Longrightarrow> (\<not> c \<Longrightarrow> preserves P b) \<Longrightarrow> preserves P (if c then a else b)"
  by simp

lemma preserves_autocommit:
  assumes "\<And>d r d'. P d \<Longrightarrow> f d = Inr (r, d') \<Longrightarrow> P d'"
  shows "preserves P (autocommit en s f)"
proof -
  have "preserves P (\<lambda>w. (Inr (), case conn w of None \<Rightarrow> w | Some d \<Rightarrow> w\<lparr>disk := d\<rparr>))"
    by (auto simp: preserves_def winv_def split: option.splits)
  moreover have "preserves P (execute en s f)"
    by (rule preserves_execute) (rule assms)
  ultimately show ?thesis
    unfolding autocommit_def by (simp add: preserves_bind)
qed

lemma pragma_keeps: "pragma d = Inr (r, d') \<Longrightarrow> d' = d"
  by (simp add: pragma_def)

text \<open>A handler opens its connection on the committed file, so only the file matters at its start.\<close>

lemma get_db_winv:
  assumes "P (disk w)"
  shows "P (disk (snd (get_db en w))) \<and> (\<forall>u. fst (get_db en w) = Inr u \<longrightarrow> winv P (snd (get_db en w)))"
proof (cases "fault en Connect")
  case True
  with assms show ?thesis by (simp add: get_db_def log_step_def Let_def)
next
  case False
  let ?w2 = "log_step Acquire ((log_step (Exec Connect) w)\<lparr>conn := Some (disk (log_step (Exec Connect) w))\<rparr>)"
  have w2: "winv P ?w2" using assms by (simp add: winv_def log_step_def)
  have "preserves P (bind_io (execute en (Pragma ''journal_mode=WAL'') pragma) (\<lambda>_.
                 execute en (Pragma ''foreign_keys=ON'') pragma))"
    by (intro preserves_bind preserves_execute) (auto dest: pragma_keeps)
  with w2 have "winv P (snd (get_db en w))"
    using False by (simp add: get_db_def Let_def preserves_def)
  then show ?thesis by (simp add: winv_def)
qed

lemma handler_preserves:
  assumes "\<And>x. preserves P (body x)" and "P (disk w)"
  shows "P (disk (snd (bind_io (get_db en) body w)))"
proof (cases "get_db en w")
  case (Pair r w')
  from get_db_winv [where P = P and w = w and en = en] assms(2) Pair
  have d: "P (disk w')" and ok: "\<And>u. r = Inr u \<Longrightarrow> winv P w'" by auto
  show ?thesis
  proof (cases r)
    case (Inl e)
    with Pair d show ?thesis by (simp add: bind_io_def)
  next
    case (Inr u)
    from ok [OF Inr] assms(1) [of u] have "winv P (snd (body u w'))"
      by (simp add: preserves_def)
    with Pair Inr show ?thesis by (simp add: bind_io_def winv_def)
  qed
qed

section \<open>Storage initialization\<close>

text \<open>
  C1. After \<open>init_db\<close> the tables emails, links and events exist, but \<^verbatim>\<open>ignored_ips\<close>
  does not: on a fresh database file the initialization succeeds and leaves the
  file without that table, and the ignored-IP lookups of the open handler and of the
  click handler (for a registered link) then fail with "no such table" instead of
  running against an existing table.
\<close>

theorem init_db_omits_ignored_ips:
  "fst (init_db env_ok fresh) = Inr () \<and>
   map (table_exists (disk (snd (init_db env_ok fresh)))) [Emails, Links, Events, IgnoredIps]
     = [True, True, True, False] \<and>
   fst (track_open env_ok ''abc'' mail_client (snd (init_db env_ok fresh)))
     = Inl (NoSuchTable IgnoredIps) \<and>
   fst (track_click env_ok ''0000000100'' mail_client
          (run [(env_ok, Startup),
                (env_ok, CreateEmail [(''emailId'', JStr ''x''), (''links'', JList [JStr ''http://a''])])]
             fresh))
     = Inl (NoSuchTable IgnoredIps)"
  by code_simp

lemma bind_io_Inr:
  assumes "bind_io m f w = (Inr y, w')"
  obtains x w1 where "m w = (Inr x, w1)" and "f x w1 = (Inr y, w')"
  using assms by (auto simp: bind_io_def split: prod.splits sum.splits)

lemma finally_io_result:
  assumes "finally_io m cleanup w = (r, w')"
  obtains w1 where "m w = (r, w1)" and "w' = cleanup w1"
  using assms by (auto simp: finally_io_def split: prod.splits)

lemma execute_Inr:
  assumes "execute en s f w = (Inr r, w')"
  obtains d d' where "conn w = Some d" and "f d = Inr (r, d')" and "\<not> fault en s"
    and "w' = (log_step (Exec s) w)\<lparr>conn := Some d'\<rparr>"
  using assms
  by (auto simp: execute_def log_step_def Let_def split: if_splits option.splits sum.splits)

lemma commit_Inr:
  assumes "commit en w = (Inr u, w')"
  obtains d where "conn w = Some d" and "\<not> fault en Commit"
    and "w' = (log_step (Exec Commit) w)\<lparr>disk := d\<rparr>"
  using assms
  by (auto simp: commit_def log_step_def Let_def split: if_splits option.splits)

lemma get_db_Inr:
  assumes "get_db en w = (Inr u, w')"
  shows "conn w' = Some (disk w) \<and> disk w' = disk w \<and>
         trace w' = trace w @ [Exec Connect, Acquire, Exec (Pragma ''journal_mode=WAL''),
                               Exec (Pragma ''foreign_keys=ON'')]"
  using assms
  by (auto simp: get_db_def bind_io_def execute_def pragma_def log_step_def Let_def
           split: if_splits)

lemma return_io_eq: "return_io x w = (r, w') \<longleftrightarrow> r = Inr x \<and> w' = w"
  by (auto simp: return_io_def)

section \<open>Registration: the upsert\<close>

lemma insert_link_keeps:
  "insert_link l e u d = Inr (r, d') \<Longrightarrow>
     emails d' = emails d \<and> events d' = events d \<and> ignored_ips d' = ignored_ips d \<and>
     events_seq d' = events_seq d"
  by (auto simp: insert_link_def split: option.splits sum.splits if_splits)

lemma insert_links_keeps:
  "insert_links en e k urls w = (Inr ms, w') \<Longrightarrow> conn w = Some d \<Longrightarrow>
     \<exists>d'. conn w' = Some d' \<and> emails d' = emails d \<and> events d' = events d \<and>
          ignored_ips d' = ignored_ips d \<and> disk w' = disk w"
proof (induction urls arbitrary: k w d ms w')
  case Nil
  then show ?case by (simp add: return_io_def)
next
  case (Cons url urls)
  from Cons.prems(1) obtain u w1 rest where
    ex: "execute en (Insert Links) (insert_link (take 10 (uuid_hex (uuid4 en k))) e url) w = (Inr u, w1)"
    and rec: "insert_links en e (Suc k) urls w1 = (Inr rest, w')"
    by (auto simp: Let_def return_io_eq elim!: bind_io_Inr)
  from ex Cons.prems(2) obtain d1 where
    d1: "conn w1 = Some d1" "emails d1 = emails d" "events d1 = events d"
        "ignored_ips d1 = ignored_ips d" "disk w1 = disk w"
    by (auto simp: log_step_def elim!: execute_Inr dest: insert_link_keeps)
  from Cons.IH [OF rec d1(1)] d1 show ?case by auto
qed

lemma find_map_upsert_row:
  "find (\<lambda>e. e_id e = i) (map (upsert_row i s r) rows) =
     map_option (upsert_row i s r) (find (\<lambda>e. e_id e = i) rows)"
  by (induction rows) (auto simp: upsert_row_def)

lemma upsert_email_conflict:
  assumes "upsert_email ei es er ts d = Inr (u, d')"
    and "bind_text ei = Inr (Some i)" and "bind_text es = Inr (Some s)"
    and "bind_text er = Inr (Some r)" and "stored_email d i = Some row"
  shows "stored_email d' i = Some (upsert_row i s r row)"
proof -
  from assms(5) obtain rows where rows: "emails d = Some rows" "i \<in> set (map e_id rows)"
    by (cases "emails d") (auto simp: stored_email_def rows_of_def find_Some_iff)
  with assms(1-4) have "emails d' = Some (map (upsert_row i s r) rows)"
    by (auto simp: upsert_email_def)
  with assms(5) rows show ?thesis
    by (simp add: stored_email_def rows_of_def find_map_upsert_row)
qed

text \<open>
  C3 (as amended). When a row for the id is already stored, a successful registration
  replaces its subject and recipient, both at once, exactly when at least one of the two
  is currently empty; a row whose subject and recipient are both non-empty is left as it is,
  so that the first registration wins only once both fields are set.
\<close>

theorem registration_overwrites_only_incomplete_row:
  assumes "stored_email (disk w) i = Some row"
    and "truthy (dict_get body ''emailId'')"
    and "bind_text (dict_get body ''emailId'') = Inr (Some i)"
    and "bind_text (dict_get_default body ''subject'' (JStr [])) = Inr (Some s)"
    and "bind_text (dict_get_default body ''recipient'' (JStr [])) = Inr (Some r)"
    and "fst (create_email en body w) = Inr reg"
  shows "stored_email (disk (snd (create_email en body w))) i =
           Some (if e_subject row = [] \<or> e_recipient row = []
                 then row\<lparr>e_subject := s, e_recipient := r\<rparr> else row)"
proof -
  obtain w' where run: "create_email en body w = (Inr reg, w')"
    using assms(6) by (cases "create_email en body w") auto
  let ?eid = "dict_get body ''emailId''"
  from run assms(2) obtain u0 w1 ms w5 where
    g: "get_db en w = (Inr u0, w1)" and
    body: "finally_io
           (bind_io (execute en (Insert Emails)
                       (upsert_email ?eid (dict_get_default body ''subject'' (JStr []))
                          (dict_get_default body ''recipient'' (JStr [])) (now en))) (\<lambda>_.
            bind_io (\<lambda>w. (py_iter (dict_get_default body ''links'' (JList [])), w)) (\<lambda>urls.
            bind_io (insert_links en ?eid 0 urls) (\<lambda>link_mappings.
            bind_io (commit en) (\<lambda>_.
            return_io link_mappings)))))
           close w1 = (Inr ms, w5)" and w': "w' = w5"
    by (auto simp: create_email_def Let_def return_io_eq elim!: bind_io_Inr)
  from body obtain u1 w2 urls w2' ms' w3 u3 w4 where
    up: "execute en (Insert Emails)
           (upsert_email ?eid (dict_get_default body ''subject'' (JStr []))
              (dict_get_default body ''recipient'' (JStr [])) (now en)) w1 = (Inr u1, w2)"
    and it: "(py_iter (dict_get_default body ''links'' (JList [])), w2) = (Inr urls, w2')"
    and ins: "insert_links en ?eid 0 urls w2' = (Inr ms', w3)"
    and com: "commit en w3 = (Inr u3, w4)"
    and w5: "w5 = close w4"
    by (auto simp: return_io_eq elim!: finally_io_result bind_io_Inr)
  from get_db_Inr [OF g] have c1: "conn w1 = Some (disk w)" by simp
  from up c1 obtain d2 where d2: "conn w2 = Some d2"
    and upd: "upsert_email ?eid (dict_get_default body ''subject'' (JStr []))
                (dict_get_default body ''recipient'' (JStr [])) (now en) (disk w) = Inr (u1, d2)"
    by (auto elim!: execute_Inr)
  from upsert_email_conflict [OF upd assms(3,4,5,1)]
  have st2: "stored_email d2 i = Some (upsert_row i s r row)" .
  from it have "w2' = w2" by simp
  with insert_links_keeps [OF ins] d2 obtain d3 where
    d3: "conn w3 = Some d3" "emails d3 = emails d2" by auto
  from com d3 have "disk w4 = d3" by (auto elim!: commit_Inr)
  then have "disk w' = d3" using w' w5 by (simp add: close_def log_step_def)
  moreover from assms(1) have "e_id row = i"
    by (auto simp: stored_email_def find_Some_iff)
  ultimately show ?thesis
    using st2 d3(2) run by (auto simp: stored_email_def upsert_row_def)
qed

text \<open>
  An instance: after registering \<^verbatim>\<open>{emailId: "x", subject: "A", recipient: "bob@example.org"}\<close>,
  registering \<^verbatim>\<open>{emailId: "x", subject: "B"}\<close> succeeds and leaves the subject \<^verbatim>\<open>"A"\<close>.
\<close>

theorem registration_overwrites_only_incomplete_row_witness:
  "stored_email (disk (run [(env_ok, CreateEmail reg_A_full)] ready)) ''x'' =
     Some \<lparr>e_id = ''x'', e_subject = ''A'', e_recipient = ''bob@example.org'', e_created_at = 1000\<rparr> \<and>
   truthy (dict_get reg_B ''emailId'') \<and>
   bind_text (dict_get reg_B ''emailId'') = Inr (Some ''x'') \<and>
   bind_text (dict_get_default reg_B ''subject'' (JStr [])) = Inr (Some ''B'') \<and>
   bind_text (dict_get_default reg_B ''recipient'' (JStr [])) = Inr (Some []) \<and>
   fst (create_email env_ok reg_B (run [(env_ok, CreateEmail reg_A_full)] ready)) =
     Inr \<lparr>reg_email_id = JStr ''x'', reg_pixel_url = ''/t/x.png'', reg_links = []\<rparr> \<and>
   stored_email (disk (snd (create_email env_ok reg_B (run [(env_ok, CreateEmail reg_A_full)] ready)))) ''x'' =
     Some \<lparr>e_id = ''x'', e_subject = ''A'', e_recipient = ''bob@example.org'', e_created_at = 1000\<rparr>"
proof -
  let ?w = "run [(env_ok, CreateEmail reg_A_full)] ready"
  let ?row = "\<lparr>e_id = ''x'', e_subject = ''A'', e_recipient = ''bob@example.org'', e_created_at = 1000\<rparr>"
  have h1: "stored_email (disk ?w) ''x'' = Some ?row" by code_simp
  have h2: "truthy (dict_get reg_B ''emailId'')" by code_simp
  have h3: "bind_text (dict_get reg_B ''emailId'') = Inr (Some ''x'')" by code_simp
  have h4: "bind_text (dict_get_default reg_B ''subject'' (JStr [])) = Inr (Some ''B'')" by code_simp
  have h5: "bind_text (dict_get_default reg_B ''recipient'' (JStr [])) = Inr (Some [])" by code_simp
  have h6: "fst (create_email env_ok reg_B ?w) =
     Inr \<lparr>reg_email_id = JStr ''x'', reg_pixel_url = ''/t/x.png'', reg_links = []\<rparr>" by code_simp
  from registration_overwrites_only_incomplete_row [OF h1 h2 h3 h4 h5 h6]
  have "stored_email (disk (snd (create_email env_ok reg_B ?w))) ''x'' = Some ?row" by simp
  with h1 h2 h3 h4 h5 h6 show ?thesis by blast
qed

text \<open>
  C3 as stated fails: registering \<^verbatim>\<open>{emailId: "x", subject: "A"}\<close> stores an empty
  recipient, so the guard \<^verbatim>\<open>subject = '' OR recipient = ''\<close> holds at the second
  registration \<^verbatim>\<open>{emailId: "x", subject: "B"}\<close>, and the stored subject becomes \<^verbatim>\<open>"B"\<close>.
\<close>

theorem second_registration_replaces_subject:
  "emails (disk (run [(env_ok, CreateEmail reg_A), (env_ok, CreateEmail reg_B)] ready)) =
     Some [\<lparr>e_id = ''x'', e_subject = ''B'', e_recipient = [], e_created_at = 1000\<rparr>]"
  by code_simp

section \<open>The connection and the geolocation call\<close>

lemma held_after_append: "held_after h (t1 @ t2) = held_after (held_after h t1) t2"
  by (induction h t1 rule: held_after.induct) auto

lemma geo_calls_inside_append:
  "geo_calls_inside h (t1 @ t2) = (geo_calls_inside h t1 \<and> geo_calls_inside (held_after h t1) t2)"
  by (induction h t1 rule: geo_calls_inside.induct) auto

lemma inside_return: "inside (return_io x)"
  by (simp add: inside_def return_io_def)

lemma inside_raise: "inside (raise_io e)"
  by (simp add: inside_def raise_io_def)

lemma inside_pure: "inside (\<lambda>w. (r, w))"
  by (simp add: inside_def)

lemma inside_execute: "inside (execute en s f)"
  by (auto simp: inside_def execute_def log_step_def Let_def split: option.splits sum.splits)

lemma inside_commit: "inside (commit en)"
  by (auto simp: inside_def commit_def log_step_def Let_def split: option.splits)

lemma inside_geolocate_ip: "inside (geolocate_ip en ip)"
  by (auto simp: inside_def geolocate_ip_def log_step_def Let_def split: geo_reply.splits)

lemma inside_bind:
  assumes "inside m" and "\<And>x. inside (f x)"
  shows "inside (bind_io m f)"
proof -
  have "\<exists>t. trace (snd (bind_io m f w)) = trace w @ t \<and> geo_calls_inside True t \<and> held_after True t"
    for w
  proof (cases "m w")
    case (Pair r w1)
    from assms(1) Pair obtain t1 where
      t1: "trace w1 = trace w @ t1" "geo_calls_inside True t1" "held_after True t1"
      by (auto simp: inside_def dest!: spec [of _ w])
    show ?thesis
    proof (cases r)
      case (Inl e)
      with Pair t1 show ?thesis by (auto simp: bind_io_def)
    next
      case (Inr x)
      from assms(2) [of x] obtain t2 where
        t2: "trace (snd (f x w1)) = trace w1 @ t2" "geo_calls_inside True t2" "held_after True t2"
        by (auto simp: inside_def dest!: spec [of _ w1])
      have "trace (snd (bind_io m f w)) = trace w @ (t1 @ t2)"
        using Pair Inr t1(1) t2(1) by (simp add: bind_io_def)
      moreover have "geo_calls_inside True (t1 @ t2)" "held_after True (t1 @ t2)"
        using t1 t2 by (simp_all add: geo_calls_inside_append held_after_append)
      ultimately show ?thesis by blast
    qed
  qed
  then show ?thesis by (simp add: inside_def)
qed

lemma steps_of_append: "trace w' = trace w @ t \<Longrightarrow> steps_of w w' = t"
  by (simp add: steps_of_def)

text \<open>The steps of \<open>get_db\<close>, by the point where it stops.\<close>

lemma get_db_trace:
  "\<exists>t. trace (snd (get_db en w)) = trace w @ t \<and> geo_calls_inside False t \<and>
       (case fst (get_db en w) of
          Inr u \<Rightarrow> held_after False t
        | Inl e \<Rightarrow> \<not> fault en (Pragma ''journal_mode=WAL'') \<and> \<not> fault en (Pragma ''foreign_keys=ON'')
                   \<longrightarrow> \<not> held_after False t)"
  by (auto simp: get_db_def bind_io_def execute_def pragma_def log_step_def Let_def)

text \<open>A handler that opens the connection, runs its body and closes in \<^verbatim>\<open>finally\<close>.\<close>

lemma scoped_trace:
  assumes "inside body"
  shows "geo_calls_inside False
           (steps_of w (snd (bind_io (get_db en) (\<lambda>_. finally_io body close) w))) \<and>
         (\<not> fault en (Pragma ''journal_mode=WAL'') \<and> \<not> fault en (Pragma ''foreign_keys=ON'') \<longrightarrow>
            \<not> held_after False
                (steps_of w (snd (bind_io (get_db en) (\<lambda>_. finally_io body close) w))))"
proof (cases "get_db en w")
  case (Pair r w1)
  from get_db_trace [of en w] Pair obtain t1 where
    t1: "trace w1 = trace w @ t1" "geo_calls_inside False t1"
    and c: "case r of Inr u \<Rightarrow> held_after False t1
            | Inl e \<Rightarrow> \<not> fault en (Pragma ''journal_mode=WAL'') \<and> \<not> fault en (Pragma ''foreign_keys=ON'')
                       \<longrightarrow> \<not> held_after False t1"
    by auto
  show ?thesis
  proof (cases r)
    case (Inl e)
    with Pair have "snd (bind_io (get_db en) (\<lambda>_. finally_io body close) w) = w1"
      by (simp add: bind_io_def)
    with t1 c Inl show ?thesis by (simp add: steps_of_append)
  next
    case (Inr u)
    from assms obtain t2 where
      t2: "trace (snd (body w1)) = trace w1 @ t2" "geo_calls_inside True t2" "held_after True t2"
      by (auto simp: inside_def dest!: spec [of _ w1])
    have "snd (bind_io (get_db en) (\<lambda>_. finally_io body close) w) = close (snd (body w1))"
      using Pair Inr by (simp add: bind_io_def finally_io_eq)
    then have "trace (snd (bind_io (get_db en) (\<lambda>_. finally_io body close) w)) =
                 trace w @ (t1 @ t2 @ [Release])"
      using t1(1) t2(1) by (simp add: close_def log_step_def)
    then have "steps_of w (snd (bind_io (get_db en) (\<lambda>_. finally_io body close) w)) =
                 t1 @ t2 @ [Release]"
      by (rule steps_of_append)
    moreover from c Inr have "held_after False t1" by simp
    ultimately show ?thesis
      using t1(2) t2(2,3) by (simp add: geo_calls_inside_append held_after_append)
  qed
qed

lemmas inside_rules = inside_return inside_raise inside_execute inside_commit
  inside_geolocate_ip inside_bind

text \<open>
  C9 (as amended). In both ingestion handlers every geolocation call is made while the
  storage connection is open: the connection is acquired at the start of the request
  and, once \<open>get_db\<close> has set it up, released on every exit path at the end, so it is
  held across the awaited geolocation call.
\<close>

theorem connection_held_across_geolocation:
  "geo_calls_inside False (steps_of w (snd (track_open en tracking_id request w))) \<and>
   geo_calls_inside False (steps_of w (snd (track_click en link_id request w))) \<and>
   (\<not> fault en (Pragma ''journal_mode=WAL'') \<and> \<not> fault en (Pragma ''foreign_keys=ON'') \<longrightarrow>
      \<not> held_after False (steps_of w (snd (track_open en tracking_id request w))) \<and>
      \<not> held_after False (steps_of w (snd (track_click en link_id request w))))"
proof -
  have "geo_calls_inside False (steps_of w (snd (track_open en tracking_id request w))) \<and>
   (\<not> fault en (Pragma ''journal_mode=WAL'') \<and> \<not> fault en (Pragma ''foreign_keys=ON'') \<longrightarrow>
      \<not> held_after False (steps_of w (snd (track_open en tracking_id request w))))"
    unfolding track_open_def
    by (rule scoped_trace) (auto simp: Let_def intro!: inside_rules)
  moreover
  have "geo_calls_inside False (steps_of w (snd (track_click en link_id request w))) \<and>
   (\<not> fault en (Pragma ''journal_mode=WAL'') \<and> \<not> fault en (Pragma ''foreign_keys=ON'') \<longrightarrow>
      \<not> held_after False (steps_of w (snd (track_click en link_id request w))))"
    unfolding track_click_def
    by (rule scoped_trace) (auto simp: Let_def intro!: inside_rules split: list.splits)
  ultimately show ?thesis by blast
qed

theorem connection_held_across_geolocation_witness:
  "(\<not> fault env_ok (Pragma ''journal_mode=WAL'') \<and> \<not> fault env_ok (Pragma ''foreign_keys=ON'')) \<and>
   geo_calls_inside False (steps_of registered (snd (track_open env_ok ''x'' mail_client registered))) \<and>
   geo_calls_inside False (steps_of registered (snd (track_click env_ok ''0000000100'' mail_client registered))) \<and>
   \<not> held_after False (steps_of registered (snd (track_open env_ok ''x'' mail_client registered))) \<and>
   \<not> held_after False (steps_of registered (snd (track_click env_ok ''0000000100'' mail_client registered)))"
proof -
  have h: "\<not> fault env_ok (Pragma ''journal_mode=WAL'') \<and> \<not> fault env_ok (Pragma ''foreign_keys=ON'')"
    by (simp add: env_ok_def)
  with connection_held_across_geolocation
         [of registered env_ok "''x''" mail_client "''0000000100''"]
  show ?thesis by blast
qed

text \<open>
  C9 as stated fails: for a client at 8.8.8.8 the steps of an open and of a click show
  the geolocation call between the acquisition of the connection and its release.
\<close>

theorem geolocation_called_with_connection_open:
  "steps_of registered (snd (track_open env_ok ''x'' mail_client registered)) =
     [Exec Connect, Acquire, Exec (Pragma ''journal_mode=WAL''), Exec (Pragma ''foreign_keys=ON''),
      Exec (Select IgnoredIps), Exec (Insert Emails), GeoCall ''8.8.8.8'', Exec (Insert Events),
      Exec Commit, Release] \<and>
   steps_of registered (snd (track_click env_ok ''0000000100'' mail_client registered)) =
     [Exec Connect, Acquire, Exec (Pragma ''journal_mode=WAL''), Exec (Pragma ''foreign_keys=ON''),
      Exec (Select Links), Exec (Select IgnoredIps), GeoCall ''8.8.8.8'', Exec (Insert Events),
      Exec Commit, Release] \<and>
   \<not> geo_calls_outside False
        (steps_of registered (snd (track_open env_ok ''x'' mail_client registered))) \<and>
   \<not> geo_calls_outside False
        (steps_of registered (snd (track_click env_ok ''0000000100'' mail_client registered)))"
  by code_simp

section \<open>Storage failures in the tracking routes\<close>

lemma keeps_disk_return: "keeps_disk (return_io x)"
  by (simp add: keeps_disk_def return_io_def)

lemma keeps_disk_pure: "keeps_disk (\<lambda>w. (r, w))"
  by (simp add: keeps_disk_def)

lemma keeps_disk_execute: "keeps_disk (execute en s f)"
  by (auto simp: keeps_disk_def execute_def log_step_def Let_def split: option.splits sum.splits)

lemma keeps_disk_geolocate_ip: "keeps_disk (geolocate_ip en ip)"
  by (auto simp: keeps_disk_def geolocate_ip_def log_step_def Let_def split: geo_reply.splits)

lemma keeps_disk_get_db: "keeps_disk (get_db en)"
  by (auto simp: keeps_disk_def get_db_def bind_io_def execute_def pragma_def log_step_def Let_def)

lemma keeps_disk_bind:
  assumes "keeps_disk m" and "\<And>x. keeps_disk (f x)"
  shows "keeps_disk (bind_io m f)"
  using assms
  by (auto simp: keeps_disk_def bind_io_def split: prod.splits sum.splits)
     (metis snd_conv)+

lemma commits_last_keeps: "keeps_disk m \<Longrightarrow> commits_last m"
  by (simp add: keeps_disk_def commits_last_def)

lemma commits_last_commit: "commits_last (bind_io (commit en) (\<lambda>_. return_io x))"
  by (auto simp: commits_last_def bind_io_def commit_def return_io_def log_step_def Let_def
           split: option.splits)

lemma commits_last_commit_only: "commits_last (commit en)"
  by (auto simp: commits_last_def commit_def log_step_def Let_def split: option.splits)

lemma commits_last_bind:
  assumes "keeps_disk m" and "\<And>x. commits_last (f x)"
  shows "commits_last (bind_io m f)"
proof -
  have "disk (snd (bind_io m f w)) = disk w" if "isl (fst (bind_io m f w))" for w
  proof (cases "m w")
    case (Pair r w1)
    from assms(1) Pair have d1: "disk w1 = disk w"
      by (auto simp: keeps_disk_def dest!: spec [of _ w])
    show ?thesis
    proof (cases r)
      case (Inl e)
      with Pair d1 show ?thesis by (simp add: bind_io_def)
    next
      case (Inr x)
      with Pair that have "isl (fst (f x w1))" by (simp add: bind_io_def)
      with assms(2) [of x] have "disk (snd (f x w1)) = disk w1"
        by (simp add: commits_last_def)
      with Pair Inr d1 show ?thesis by (simp add: bind_io_def)
    qed
  qed
  then show ?thesis by (simp add: commits_last_def)
qed

lemma commits_last_finally_close: "commits_last m \<Longrightarrow> commits_last (finally_io m close)"
  by (simp add: commits_last_def finally_io_eq close_def log_step_def)

lemma commits_last_return: "commits_last (return_io x)"
  by (simp add: commits_last_def return_io_def)

lemma commits_last_execute: "commits_last (execute en s f)"
  by (rule commits_last_keeps) (rule keeps_disk_execute)

lemma commits_last_bind_return:
  assumes "commits_last m"
  shows "commits_last (bind_io m (\<lambda>x. return_io (g x)))"
  using assms
  by (auto simp: commits_last_def bind_io_def return_io_def split: prod.splits sum.splits)
     (metis fst_conv snd_conv sum.disc(1))+

lemmas commits_last_rules =
  commits_last_bind [OF keeps_disk_get_db] commits_last_bind [OF keeps_disk_execute]
  commits_last_bind [OF keeps_disk_geolocate_ip] commits_last_bind_return
  commits_last_finally_close commits_last_return commits_last_commit_only commits_last_execute

lemma track_open_commits_last: "commits_last (track_open en tracking_id request)"
  unfolding track_open_def
  by (auto simp: Let_def intro!: commits_last_rules)

lemma track_click_commits_last: "commits_last (track_click en link_id request)"
  unfolding track_click_def
  by (auto simp: Let_def intro!: commits_last_rules split: list.splits)

lemma select_ignored_none:
  assumes "select_ignored ip d = Inr (ignored, d')"
    and "ip \<notin> set (map ig_ip (rows_of (ignored_ips d)))"
  shows "ignored = []"
  using assms
  by (auto simp: select_ignored_def rows_of_def filter_empty_conv split: option.splits)

lemma select_link_known:
  assumes "select_link link_id d = Inr (rows, d')"
    and "link_id \<in> set (map l_id (rows_of (links d)))"
  shows "rows \<noteq> []"
  using assms
  by (auto simp: select_link_def rows_of_def filter_empty_conv split: option.splits)

lemma track_open_success_no_fault:
  assumes "track_open en tracking_id request w = (Inr r, w')"
    and "client_ip request \<notin> set (map ig_ip (rows_of (ignored_ips (disk w))))"
  shows "\<not> fault en (Insert Emails) \<and> \<not> fault en (Insert Events) \<and> \<not> fault en Commit"
proof -
  let ?ip = "client_ip request"
  from assms(1) obtain u w1 ignored w2 w3 where
    g: "get_db en w = (Inr u, w1)"
    and sel: "execute en (Select IgnoredIps) (select_ignored ?ip) w1 = (Inr ignored, w2)"
    and rest: "(if ignored \<noteq> [] then return_io (Response PIXEL_PNG ''image/png'' [(''Cache-Control'', no_cache)])
        else
          bind_io (execute en (Insert Emails) (insert_or_ignore_email tracking_id (now en))) (\<lambda>_.
          bind_io (geolocate_ip en ?ip) (\<lambda>country.
          bind_io (execute en (Insert Events)
                     (insert_event tracking_id None Open (now en) ?ip (user_agent request) country)) (\<lambda>_.
          bind_io (commit en) (\<lambda>_.
          return_io (Response PIXEL_PNG ''image/png''
            [(''Cache-Control'', no_cache), (''Pragma'', ''no-cache''), (''Expires'', ''0'')])))))) w2
        = (Inr r, w3)"
    unfolding track_open_def Let_def
    by (elim bind_io_Inr finally_io_result) blast
  from get_db_Inr [OF g] have "conn w1 = Some (disk w)" by simp
  with sel assms(2) have "ignored = []"
    by (auto elim!: execute_Inr dest: select_ignored_none)
  with rest show ?thesis
    by (auto elim!: bind_io_Inr execute_Inr commit_Inr)
qed

lemma track_click_success_no_fault:
  assumes "track_click en link_id request w = (Inr r, w')"
    and "client_ip request \<notin> set (map ig_ip (rows_of (ignored_ips (disk w))))"
    and "link_id \<in> set (map l_id (rows_of (links (disk w))))"
  shows "\<not> fault en (Insert Events) \<and> \<not> fault en Commit"
proof -
  let ?ip = "client_ip request"
  from assms(1) obtain u w1 rows w2 w3 where
    g: "get_db en w = (Inr u, w1)"
    and sel: "execute en (Select Links) (select_link link_id) w1 = (Inr rows, w2)"
    and rest: "(case rows of
          [] \<Rightarrow> return_io (JSONResponse [(''error'', JStr ''Link not found'')] 404)
        | lnk # _ \<Rightarrow>
             bind_io (execute en (Select IgnoredIps) (select_ignored ?ip)) (\<lambda>ignored.
             bind_io
               (if ignored = [] then
                  bind_io (geolocate_ip en ?ip) (\<lambda>country.
                  bind_io (execute en (Insert Events)
                             (insert_event (l_email_id lnk) (Some link_id) Click (now en) ?ip
                                (user_agent request) country)) (\<lambda>_.
                  commit en))
                else return_io ()) (\<lambda>_.
             return_io (RedirectResponse (l_original_url lnk) 302)))) w2 = (Inr r, w3)"
    unfolding track_click_def Let_def
    by (elim bind_io_Inr finally_io_result) blast
  from get_db_Inr [OF g] have c1: "conn w1 = Some (disk w)" by simp
  with sel assms(3) obtain lnk more where rows: "rows = lnk # more"
    and c2: "conn w2 = Some (disk w)"
    by (cases rows) (auto simp: select_link_def log_step_def elim!: execute_Inr
                          dest: select_link_known split: option.splits)
  from rest rows obtain ignored w4 u5 w5 where
    sel2: "execute en (Select IgnoredIps) (select_ignored ?ip) w2 = (Inr ignored, w4)"
    and wr: "(if ignored = [] then
                  bind_io (geolocate_ip en ?ip) (\<lambda>country.
                  bind_io (execute en (Insert Events)
                             (insert_event (l_email_id lnk) (Some link_id) Click (now en) ?ip
                                (user_agent request) country)) (\<lambda>_.
                  commit en))
                else return_io ()) w4 = (Inr u5, w5)"
    by (auto elim!: bind_io_Inr)
  from sel2 c2 assms(2) have "ignored = []"
    by (auto elim!: execute_Inr dest: select_ignored_none)
  with wr show ?thesis
    by (auto elim!: bind_io_Inr execute_Inr commit_Inr)
qed

text \<open>
  C2 (as amended). Past the ignored-IP check (the client IP is not in the ignored set),
  when the storage fails the statement that ensures the email row, the statement that
  writes the event, or the commit, the open handler does not return the pixel: the error
  is raised to the caller and nothing is committed. Likewise the click handler, for a
  known link, raises instead of redirecting when writing the event or committing fails.
\<close>

theorem storage_failure_is_raised:
  assumes "client_ip request \<notin> set (map ig_ip (rows_of (ignored_ips (disk w))))"
  shows "(fault en (Insert Emails) \<or> fault en (Insert Events) \<or> fault en Commit \<longrightarrow>
            isl (fst (track_open en tracking_id request w)) \<and>
            disk (snd (track_open en tracking_id request w)) = disk w) \<and>
         (link_id \<in> set (map l_id (rows_of (links (disk w)))) \<and>
          (fault en (Insert Events) \<or> fault en Commit) \<longrightarrow>
            isl (fst (track_click en link_id request w)) \<and>
            disk (snd (track_click en link_id request w)) = disk w)"
proof (intro conjI impI)
  assume f: "fault en (Insert Emails) \<or> fault en (Insert Events) \<or> fault en Commit"
  show o: "isl (fst (track_open en tracking_id request w))"
  proof (rule ccontr)
    assume "\<not> isl (fst (track_open en tracking_id request w))"
    then obtain r w' where "track_open en tracking_id request w = (Inr r, w')"
      by (cases "track_open en tracking_id request w"; cases "fst (track_open en tracking_id request w)")
         auto
    from track_open_success_no_fault [OF this assms] f show False by blast
  qed
  with track_open_commits_last [of en tracking_id request]
  show "disk (snd (track_open en tracking_id request w)) = disk w"
    by (simp add: commits_last_def)
next
  assume a: "link_id \<in> set (map l_id (rows_of (links (disk w)))) \<and>
          (fault en (Insert Events) \<or> fault en Commit)"
  show c: "isl (fst (track_click en link_id request w))"
  proof (rule ccontr)
    assume "\<not> isl (fst (track_click en link_id request w))"
    then obtain r w' where "track_click en link_id request w = (Inr r, w')"
      by (cases "track_click en link_id request w"; cases "fst (track_click en link_id request w)")
         auto
    from track_click_success_no_fault [OF this assms] a show False by blast
  qed
  with track_click_commits_last [of en link_id request]
  show "disk (snd (track_click en link_id request w)) = disk w"
    by (simp add: commits_last_def)
qed

theorem storage_failure_is_raised_witness:
  "client_ip mail_client \<notin> set (map ig_ip (rows_of (ignored_ips (disk registered)))) \<and>
   (fault env_event_fault (Insert Emails) \<or> fault env_event_fault (Insert Events) \<or>
      fault env_event_fault Commit) \<and>
   ''0000000100'' \<in> set (map l_id (rows_of (links (disk registered)))) \<and>
   isl (fst (track_open env_event_fault ''x'' mail_client registered)) \<and>
   disk (snd (track_open env_event_fault ''x'' mail_client registered)) = disk registered \<and>
   isl (fst (track_click env_event_fault ''0000000100'' mail_client registered)) \<and>
   disk (snd (track_click env_event_fault ''0000000100'' mail_client registered)) = disk registered"
proof -
  have h1: "client_ip mail_client \<notin> set (map ig_ip (rows_of (ignored_ips (disk registered))))"
    by code_simp
  have h2: "fault env_event_fault (Insert Events)" by code_simp
  have h3: "''0000000100'' \<in> set (map l_id (rows_of (links (disk registered))))" by code_simp
  from storage_failure_is_raised [OF h1, of env_event_fault "''x''" "''0000000100''"] h2 h3
  show ?thesis using h1 by blast
qed

text \<open>
  C2 as stated fails: with the event insert or the commit failing, the open of a
  registered email and the click on one of its links end in the storage error, not in
  the pixel or the redirect that the same requests get when the storage works.
\<close>

theorem tracking_fails_when_storage_fails:
  "fst (track_open env_event_fault ''x'' mail_client registered) = Inl (StorageFault (Insert Events)) \<and>
   fst (track_open env_commit_fault ''x'' mail_client registered) = Inl (StorageFault Commit) \<and>
   fst (track_click env_event_fault ''0000000100'' mail_client registered)
     = Inl (StorageFault (Insert Events)) \<and>
   fst (track_click env_commit_fault ''0000000100'' mail_client registered)
     = Inl (StorageFault Commit) \<and>
   fst (track_click env_ok ''0000000100'' mail_client registered)
     = Inr (RedirectResponse ''http://a'' 302)"
  by code_simp

section \<open>Ignored IPs in the tracking routes\<close>

lemma get_db_ok:
  assumes "\<not> fault en Connect" and "\<not> fault en (Pragma ''journal_mode=WAL'')"
    and "\<not> fault en (Pragma ''foreign_keys=ON'')"
  shows "get_db en w = (Inr (), w\<lparr>conn := Some (disk w),
           trace := trace w @ [Exec Connect, Acquire, Exec (Pragma ''journal_mode=WAL''),
                               Exec (Pragma ''foreign_keys=ON'')]\<rparr>)"
  using assms
  by (simp add: get_db_def bind_io_def execute_def pragma_def log_step_def Let_def)

lemma execute_ok:
  assumes "\<not> fault en s" and "conn w = Some d" and "f d = Inr (r, d')"
  shows "execute en s f w = (Inr r, (log_step (Exec s) w)\<lparr>conn := Some d'\<rparr>)"
  using assms by (simp add: execute_def log_step_def Let_def)

lemma find_filter:
  "find P xs = Some x \<Longrightarrow> \<exists>more. filter P xs = x # more"
  by (induction xs) (auto split: if_splits)

lemma track_open_response:
  assumes "fst (track_open en tracking_id request w) = Inr resp"
  shows "\<exists>hs. resp = Response PIXEL_PNG ''image/png'' hs \<and> map_of hs ''Cache-Control'' = Some no_cache"
proof -
  obtain w' where "track_open en tracking_id request w = (Inr resp, w')"
    using assms by (cases "track_open en tracking_id request w") auto
  then show ?thesis
    unfolding track_open_def Let_def
    by (elim bind_io_Inr finally_io_result)
       (auto simp: return_io_eq split: if_splits elim!: bind_io_Inr)
qed

lemma track_click_response:
  assumes "fst (track_click en link_id request w) = Inr resp"
    and "find (\<lambda>l. l_id l = link_id) (rows_of (links (disk w))) = Some lnk"
  shows "resp = RedirectResponse (l_original_url lnk) 302"
proof -
  obtain w' where run: "track_click en link_id request w = (Inr resp, w')"
    using assms(1) by (cases "track_click en link_id request w") auto
  from run obtain u w1 rows w2 w3 where
    g: "get_db en w = (Inr u, w1)"
    and sel: "execute en (Select Links) (select_link link_id) w1 = (Inr rows, w2)"
    and rest: "(case rows of
          [] \<Rightarrow> return_io (JSONResponse [(''error'', JStr ''Link not found'')] 404)
        | l # _ \<Rightarrow>
             bind_io (execute en (Select IgnoredIps) (select_ignored (client_ip request))) (\<lambda>ignored.
             bind_io
               (if ignored = [] then
                  bind_io (geolocate_ip en (client_ip request)) (\<lambda>country.
                  bind_io (execute en (Insert Events)
                             (insert_event (l_email_id l) (Some link_id) Click (now en) (client_ip request)
                                (user_agent request) country)) (\<lambda>_.
                  commit en))
                else return_io ()) (\<lambda>_.
             return_io (RedirectResponse (l_original_url l) 302)))) w2 = (Inr resp, w3)"
    unfolding track_click_def Let_def
    by (elim bind_io_Inr finally_io_result) blast
  from get_db_Inr [OF g] have c1: "conn w1 = Some (disk w)" by simp
  from assms(2) obtain ls where ls: "links (disk w) = Some ls"
    by (cases "links (disk w)") (auto simp: rows_of_def)
  with assms(2) obtain more where "filter (\<lambda>l. l_id l = link_id) ls = lnk # more"
    by (auto simp: rows_of_def dest: find_filter)
  with sel c1 ls have "rows = lnk # more"
    by (auto simp: select_link_def elim!: execute_Inr)
  with rest show ?thesis
    by (auto simp: return_io_eq elim!: bind_io_Inr)
qed

text \<open>
  C4. When the resolved client IP is in the ignored set (and the storage serves the
  lookups), the open handler returns the pixel and the click handler, for a known link,
  the 302 redirect to the link's original URL, and neither commits anything: no event
  row is added. These are the responses a request from any other address gets when it
  succeeds: the same pixel content, media type and Cache-Control header for an open, the
  same redirect for a click.
\<close>

theorem ignored_ip_gets_response_without_event:
  assumes "client_ip request \<in> set (map ig_ip (rows_of (ignored_ips (disk w))))"
    and "\<not> fault en Connect" and "\<not> fault en (Pragma ''journal_mode=WAL'')"
    and "\<not> fault en (Pragma ''foreign_keys=ON'')" and "\<not> fault en (Select IgnoredIps)"
  shows "fst (track_open en tracking_id request w) =
           Inr (Response PIXEL_PNG ''image/png'' [(''Cache-Control'', no_cache)]) \<and>
         disk (snd (track_open en tracking_id request w)) = disk w \<and>
         (\<forall>en' t' request' resp. fst (track_open en' t' request' w) = Inr resp \<longrightarrow>
            (\<exists>hs. resp = Response PIXEL_PNG ''image/png'' hs \<and>
                  map_of hs ''Cache-Control'' = Some no_cache)) \<and>
         (\<forall>lnk. \<not> fault en (Select Links) \<and>
            find (\<lambda>l. l_id l = link_id) (rows_of (links (disk w))) = Some lnk \<longrightarrow>
            fst (track_click en link_id request w) = Inr (RedirectResponse (l_original_url lnk) 302) \<and>
            disk (snd (track_click en link_id request w)) = disk w \<and>
            (\<forall>en' request' resp. fst (track_click en' link_id request' w) = Inr resp \<longrightarrow>
               resp = RedirectResponse (l_original_url lnk) 302))"
proof -
  let ?ip = "client_ip request"
  let ?w1 = "w\<lparr>conn := Some (disk w),
           trace := trace w @ [Exec Connect, Acquire, Exec (Pragma ''journal_mode=WAL''),
                               Exec (Pragma ''foreign_keys=ON'')]\<rparr>"
  from assms(1) obtain igs where igs: "ignored_ips (disk w) = Some igs"
    by (cases "ignored_ips (disk w)") (auto simp: rows_of_def)
  with assms(1) have ne: "filter (\<lambda>r. ig_ip r = ?ip) igs \<noteq> []"
    by (auto simp: rows_of_def filter_empty_conv)
  have g: "get_db en w = (Inr (), ?w1)"
    by (rule get_db_ok) (rule assms)+
  have sel: "\<And>w2. conn w2 = Some (disk w) \<Longrightarrow>
      execute en (Select IgnoredIps) (select_ignored ?ip) w2 =
        (Inr (filter (\<lambda>r. ig_ip r = ?ip) igs), (log_step (Exec (Select IgnoredIps)) w2)\<lparr>conn := Some (disk w)\<rparr>)"
    using assms(5) igs by (simp add: execute_def select_ignored_def log_step_def Let_def)
  have open_run: "track_open en tracking_id request w =
      (Inr (Response PIXEL_PNG ''image/png'' [(''Cache-Control'', no_cache)]),
       close ((log_step (Exec (Select IgnoredIps)) ?w1)\<lparr>conn := Some (disk w)\<rparr>))"
    using ne by (simp add: track_open_def bind_io_def finally_io_eq g sel return_io_def Let_def)
  have click: "fst (track_click en link_id request w) = Inr (RedirectResponse (l_original_url lnk) 302) \<and>
            disk (snd (track_click en link_id request w)) = disk w"
    if nf: "\<not> fault en (Select Links)"
      and lk: "find (\<lambda>l. l_id l = link_id) (rows_of (links (disk w))) = Some lnk" for lnk
  proof -
    from lk obtain ls where ls: "links (disk w) = Some ls"
      by (cases "links (disk w)") (auto simp: rows_of_def)
    with lk obtain more where fl: "filter (\<lambda>l. l_id l = link_id) ls = lnk # more"
      by (auto simp: rows_of_def dest: find_filter)
    have sl: "execute en (Select Links) (select_link link_id) ?w1 =
        (Inr (lnk # more), (log_step (Exec (Select Links)) ?w1)\<lparr>conn := Some (disk w)\<rparr>)"
      using nf ls fl by (simp add: execute_def select_link_def log_step_def Let_def)
    show ?thesis
      using ne
      by (simp add: track_click_def bind_io_def finally_io_eq g sl sel return_io_def Let_def
                    close_def log_step_def)
  qed
  from open_run click show ?thesis
    by (auto simp: close_def log_step_def dest: track_open_response track_click_response)
qed

theorem ignored_ip_gets_response_without_event_witness:
  "client_ip operator \<in> set (map ig_ip (rows_of (ignored_ips (disk ignoring)))) \<and>
   \<not> fault env_ok Connect \<and> \<not> fault env_ok (Pragma ''journal_mode=WAL'') \<and>
   \<not> fault env_ok (Pragma ''foreign_keys=ON'') \<and> \<not> fault env_ok (Select IgnoredIps) \<and>
   \<not> fault env_ok (Select Links) \<and>
   find (\<lambda>l. l_id l = ''0000000100'') (rows_of (links (disk ignoring))) = Some link_a \<and>
   fst (track_open env_ok ''x'' operator ignoring) =
     Inr (Response PIXEL_PNG ''image/png'' [(''Cache-Control'', no_cache)]) \<and>
   disk (snd (track_open env_ok ''x'' operator ignoring)) = disk ignoring \<and>
   fst (track_click env_ok ''0000000100'' operator ignoring) =
     Inr (RedirectResponse (l_original_url link_a) 302) \<and>
   disk (snd (track_click env_ok ''0000000100'' operator ignoring)) = disk ignoring"
proof -
  have h1: "client_ip operator \<in> set (map ig_ip (rows_of (ignored_ips (disk ignoring))))"
    by code_simp
  have h2: "\<not> fault env_ok Connect" and h3: "\<not> fault env_ok (Pragma ''journal_mode=WAL'')"
    and h4: "\<not> fault env_ok (Pragma ''foreign_keys=ON'')"
    and h5: "\<not> fault env_ok (Select IgnoredIps)" and h6: "\<not> fault env_ok (Select Links)"
    by (simp_all add: env_ok_def)
  have h7: "find (\<lambda>l. l_id l = ''0000000100'') (rows_of (links (disk ignoring))) = Some link_a"
    by code_simp
  from ignored_ip_gets_response_without_event [OF h1 h2 h3 h4 h5, of "''x''" "''0000000100''"] h6 h7
  have "fst (track_open env_ok ''x'' operator ignoring) =
          Inr (Response PIXEL_PNG ''image/png'' [(''Cache-Control'', no_cache)]) \<and>
        disk (snd (track_open env_ok ''x'' operator ignoring)) = disk ignoring \<and>
        fst (track_click env_ok ''0000000100'' operator ignoring) =
          Inr (RedirectResponse (l_original_url link_a) 302) \<and>
        disk (snd (track_click env_ok ''0000000100'' operator ignoring)) = disk ignoring"
    by blast
  with h1 h2 h3 h4 h5 h6 h7 show ?thesis by blast
qed

section \<open>Registration: the generated id\<close>

lemma digits_of_nat_nonempty: "digits_of_nat n \<noteq> []"
  by (subst digits_of_nat.simps) simp

lemma bind_text_truthy_nonempty:
  "truthy v \<Longrightarrow> bind_text v = Inr (Some i) \<Longrightarrow> i \<noteq> []"
  by (cases v) (auto simp: string_of_int_def digits_of_nat_nonempty split: if_splits)

lemma length_uuid_hex: "length (uuid_hex u) = 32"
  by (simp add: uuid_hex_def)

lemma dict_get_without:
  "dict_get (filter (\<lambda>kv. fst kv \<noteq> k) body) k' = (if k' = k then JNull else dict_get body k')"
  by (induction body) (auto simp: dict_get_def)

lemma dict_get_default_without:
  "k' \<noteq> k \<Longrightarrow> dict_get_default (filter (\<lambda>kv. fst kv \<noteq> k) body) k' dflt = dict_get_default body k' dflt"
  by (induction body) (auto simp: dict_get_default_def)

lemma e_id_upsert_row [simp]: "e_id (upsert_row i s r row) = e_id row"
  by (simp add: upsert_row_def)

lemma upsert_email_Inr:
  assumes "upsert_email ei es er ts d = Inr (u, d')"
  obtains rows i s r where "emails d = Some rows" and "bind_text ei = Inr (Some i)"
    and "bind_text es = Inr (Some s)" and "bind_text er = Inr (Some r)"
    and "d' = d\<lparr>emails := Some (if i \<in> set (map e_id rows) then map (upsert_row i s r) rows
            else rows @ [\<lparr>e_id = i, e_subject = s, e_recipient = r, e_created_at = ts\<rparr>])\<rparr>"
  using assms by (auto simp: upsert_email_def split: option.splits sum.splits if_splits)

lemma upsert_email_has_id:
  assumes "upsert_email ei es er ts d = Inr (u, d')" and "bind_text ei = Inr (Some i)"
  shows "set (map e_id (rows_of (emails d'))) = insert i (set (map e_id (rows_of (emails d))))"
  using assms by (elim upsert_email_Inr) (auto simp: rows_of_def image_image)

lemma upsert_email_bound:
  assumes "upsert_email ei es er ts d = Inr (u, d')"
  shows "\<exists>i. bind_text ei = Inr (Some i)"
  using assms by (auto simp: upsert_email_def split: option.splits sum.splits)

text \<open>What a successful registration did: the upsert on the committed file, then links only.\<close>

lemma create_email_success:
  assumes "create_email en body w = (Inr reg, w')"
  defines "eid \<equiv> (if truthy (dict_get body ''emailId'') then dict_get body ''emailId''
                   else JStr (take 12 (uuid_hex (uuid4 en 0))))"
  shows "\<exists>u d2. upsert_email eid (dict_get_default body ''subject'' (JStr []))
                  (dict_get_default body ''recipient'' (JStr [])) (now en) (disk w) = Inr (u, d2) \<and>
                emails (disk w') = emails d2 \<and> reg_email_id reg = eid \<and>
                reg_pixel_url reg = ''/t/'' @ py_str en eid @ ''.png''"
proof -
  let ?k = "if truthy (dict_get body ''emailId'') then 0 else 1 :: nat"
  from assms(1) obtain u0 w1 ms w5 where
    g: "get_db en w = (Inr u0, w1)" and
    body: "finally_io
           (bind_io (execute en (Insert Emails)
                       (upsert_email eid (dict_get_default body ''subject'' (JStr []))
                          (dict_get_default body ''recipient'' (JStr [])) (now en))) (\<lambda>_.
            bind_io (\<lambda>w. (py_iter (dict_get_default body ''links'' (JList [])), w)) (\<lambda>urls.
            bind_io (insert_links en eid ?k urls) (\<lambda>link_mappings.
            bind_io (commit en) (\<lambda>_.
            return_io link_mappings)))))
           close w1 = (Inr ms, w5)" and w': "w' = w5" and r: "reg_email_id reg = eid"
    "reg_pixel_url reg = ''/t/'' @ py_str en eid @ ''.png''"
    unfolding create_email_def Let_def eid_def
    by (elim bind_io_Inr) (auto simp: return_io_eq)
  from body obtain u1 w2 urls w2' ms' w3 u3 w4 where
    up: "execute en (Insert Emails)
           (upsert_email eid (dict_get_default body ''subject'' (JStr []))
              (dict_get_default body ''recipient'' (JStr [])) (now en)) w1 = (Inr u1, w2)"
    and it: "(py_iter (dict_get_default body ''links'' (JList [])), w2) = (Inr urls, w2')"
    and ins: "insert_links en eid ?k urls w2' = (Inr ms', w3)"
    and com: "commit en w3 = (Inr u3, w4)"
    and w5: "w5 = close w4"
    by (elim finally_io_result bind_io_Inr) (auto simp: return_io_eq)
  from get_db_Inr [OF g] have c1: "conn w1 = Some (disk w)" by simp
  from up c1 obtain d2 where d2: "conn w2 = Some d2"
    and upd: "upsert_email eid (dict_get_default body ''subject'' (JStr []))
                (dict_get_default body ''recipient'' (JStr [])) (now en) (disk w) = Inr (u1, d2)"
    by (auto elim!: execute_Inr)
  from it have "w2' = w2" by simp
  with insert_links_keeps [OF ins] d2 obtain d3 where
    d3: "conn w3 = Some d3" "emails d3 = emails d2" by auto
  from com d3 have "disk w4 = d3" by (auto elim!: commit_Inr)
  then have "disk w' = d3" using w' w5 by (simp add: close_def log_step_def)
  with upd d3(2) r show ?thesis by auto
qed

lemma insert_links_preserves:
  assumes "\<And>l e u d r d'. P d \<Longrightarrow> insert_link l e u d = Inr (r, d') \<Longrightarrow> P d'"
  shows "preserves P (insert_links en eid k urls)"
proof (induction urls arbitrary: k)
  case Nil
  show ?case by (simp add: preserves_return)
next
  case (Cons url urls)
  have "preserves P (execute en (Insert Links) (insert_link l eid url))" for l
    by (rule preserves_execute) (rule assms)
  with Cons show ?case
    by (simp add: Let_def preserves_bind preserves_return)
qed

lemma create_email_preserves:
  assumes link: "\<And>l e u d r d'. P d \<Longrightarrow> insert_link l e u d = Inr (r, d') \<Longrightarrow> P d'"
    and up: "\<And>ei es er ts d r d'. truthy ei \<Longrightarrow> P d \<Longrightarrow> upsert_email ei es er ts d = Inr (r, d') \<Longrightarrow> P d'"
    and "P (disk w)"
  shows "P (disk (snd (create_email en body w)))"
proof -
  let ?eid = "if truthy (dict_get body ''emailId'') then dict_get body ''emailId''
              else JStr (take 12 (uuid_hex (uuid4 en 0)))"
  have t: "truthy ?eid" by (simp add: length_uuid_hex flip: length_greater_0_conv)
  have u: "preserves P (execute en (Insert Emails) (upsert_email ?eid s r ts))" for s r ts
    by (rule preserves_execute) (rule up [OF t])
  have l: "preserves P (insert_links en ?eid k urls)" for k urls
    by (rule insert_links_preserves) (rule link)
  show ?thesis
    unfolding create_email_def Let_def
  proof (rule handler_preserves [where P = P])
    show "P (disk w)" by (rule assms(3))
  qed (intro preserves_bind preserves_finally_close preserves_return preserves_commit
             preserves_pure u l)
qed

text \<open>
  C10. When the body's \<^verbatim>\<open>emailId\<close> is the empty string or any other falsy value,
  registration does exactly what it does for the body without that key: the id is the
  first 12 hexadecimal digits of a fresh \<^verbatim>\<open>uuid4\<close>, it is the id returned (and the one
  in the pixel URL), and on success a row with that id is stored. For every body,
  registration leaves a table without an empty-string id without one.
\<close>

theorem falsy_email_id_is_replaced:
  assumes "\<not> truthy (dict_get body ''emailId'')"
  shows "create_email en body w = create_email en (filter (\<lambda>kv. fst kv \<noteq> ''emailId'') body) w \<and>
         length (take 12 (uuid_hex (uuid4 en 0))) = 12 \<and>
         (\<forall>reg. fst (create_email en body w) = Inr reg \<longrightarrow>
            reg_email_id reg = JStr (take 12 (uuid_hex (uuid4 en 0))) \<and>
            reg_pixel_url reg = ''/t/'' @ take 12 (uuid_hex (uuid4 en 0)) @ ''.png'' \<and>
            take 12 (uuid_hex (uuid4 en 0))
              \<in> set (map e_id (rows_of (emails (disk (snd (create_email en body w))))))) \<and>
         (\<forall>body'. no_empty_id (disk w) \<longrightarrow> no_empty_id (disk (snd (create_email en body' w))))"
proof (intro conjI allI impI)
  show "create_email en body w = create_email en (filter (\<lambda>kv. fst kv \<noteq> ''emailId'') body) w"
    using assms
    by (simp add: create_email_def dict_get_without dict_get_default_without)
  show "length (take 12 (uuid_hex (uuid4 en 0))) = 12"
    by (simp add: length_uuid_hex)
next
  fix reg
  assume ok: "fst (create_email en body w) = Inr reg"
  then obtain w' where run: "create_email en body w = (Inr reg, w')"
    by (cases "create_email en body w") auto
  let ?g = "take 12 (uuid_hex (uuid4 en 0))"
  from create_email_success [OF run] assms obtain u d2 where
    up: "upsert_email (JStr ?g) (dict_get_default body ''subject'' (JStr []))
           (dict_get_default body ''recipient'' (JStr [])) (now en) (disk w) = Inr (u, d2)"
    and em: "emails (disk w') = emails d2" and r: "reg_email_id reg = JStr ?g"
    and p: "reg_pixel_url reg = ''/t/'' @ py_str en (JStr ?g) @ ''.png''"
    by auto
  show "reg_email_id reg = JStr ?g" by (rule r)
  show "reg_pixel_url reg = ''/t/'' @ ?g @ ''.png''" using p by simp
  from upsert_email_has_id [OF up, of ?g]
  have "?g \<in> set (map e_id (rows_of (emails d2)))" by simp
  with em run show "?g \<in> set (map e_id (rows_of (emails (disk (snd (create_email en body w))))))"
    by simp
next
  fix body'
  assume "no_empty_id (disk w)"
  then show "no_empty_id (disk (snd (create_email en body' w)))"
  proof (rule create_email_preserves [where P = no_empty_id, rotated 2])
    fix l e u d r d'
    assume "no_empty_id d" "insert_link l e u d = Inr (r, d')"
    then show "no_empty_id d'"
      by (auto simp: no_empty_id_def dest: insert_link_keeps)
  next
    fix ei es er ts d r d'
    assume t: "truthy ei" and d: "no_empty_id d"
      and up: "upsert_email ei es er ts d = Inr (r, d')"
    from upsert_email_bound [OF up] obtain i where i: "bind_text ei = Inr (Some i)" by blast
    from bind_text_truthy_nonempty [OF t i] upsert_email_has_id [OF up i] d
    show "no_empty_id d'" by (auto simp: no_empty_id_def)
  qed
qed

theorem falsy_email_id_is_replaced_witness:
  "\<not> truthy (dict_get reg_empty_id ''emailId'') \<and>
   no_empty_id (disk ready) \<and>
   fst (create_email env_ok reg_empty_id ready) =
     Inr \<lparr>reg_email_id = JStr ''000000010000'', reg_pixel_url = ''/t/000000010000.png'',
          reg_links = [(JStr ''http://a'', ''/c/0000000200'')]\<rparr> \<and>
   create_email env_ok reg_empty_id ready =
     create_email env_ok (filter (\<lambda>kv. fst kv \<noteq> ''emailId'') reg_empty_id) ready \<and>
   take 12 (uuid_hex (uuid4 env_ok 0)) = ''000000010000'' \<and>
   ''000000010000'' \<in> set (map e_id (rows_of (emails (disk (snd (create_email env_ok reg_empty_id ready)))))) \<and>
   no_empty_id (disk (snd (create_email env_ok reg_empty_id ready)))"
proof -
  have h1: "\<not> truthy (dict_get reg_empty_id ''emailId'')" by code_simp
  have h2: "no_empty_id (disk ready)" by code_simp
  have h3: "fst (create_email env_ok reg_empty_id ready) =
     Inr \<lparr>reg_email_id = JStr ''000000010000'', reg_pixel_url = ''/t/000000010000.png'',
          reg_links = [(JStr ''http://a'', ''/c/0000000200'')]\<rparr>" by code_simp
  have h4: "take 12 (uuid_hex (uuid4 env_ok 0)) = ''000000010000''" by code_simp
  note t = falsy_email_id_is_replaced [OF h1, of env_ok ready]
  from t have e: "create_email env_ok reg_empty_id ready =
     create_email env_ok (filter (\<lambda>kv. fst kv \<noteq> ''emailId'') reg_empty_id) ready" by blast
  from t h3 h4 have m: "''000000010000'' \<in>
      set (map e_id (rows_of (emails (disk (snd (create_email env_ok reg_empty_id ready))))))"
    by auto
  from t h2 have n: "no_empty_id (disk (snd (create_email env_ok reg_empty_id ready)))" by blast
  from h1 h2 h3 h4 e m n show ?thesis by blast
qed

section \<open>Email detail: unique opens\<close>

lemma select_email_keeps: "select_email i d = Inr (r, d') \<Longrightarrow> d' = d"
  by (auto simp: select_email_def split: option.splits)

lemma select_timeline_keeps: "select_timeline i d = Inr (r, d') \<Longrightarrow> d' = d"
  by (auto simp: select_timeline_def split: option.splits)

lemma set_map_filter: "set (List.map_filter f xs) = {y. \<exists>x \<in> set xs. f x = Some y}"
  by (induction xs) (auto simp: List.map_filter_simps split: option.splits)

lemma select_unique_opens_Inr:
  assumes "select_unique_opens i d = Inr (n, d')"
  shows "d' = d \<and>
         n = card {ip. \<exists>ev \<in> set (rows_of (events d)).
                     ev_email_id ev = i \<and> ev_event_type ev = Open \<and> ev_ip ev = Some ip}"
proof -
  from assms obtain evs where evs: "events d = Some evs" and d: "d' = d"
    and n: "n = length (remdups (List.map_filter ev_ip
                 (filter (\<lambda>ev. ev_email_id ev = i \<and> ev_event_type ev = Open) evs)))"
    by (auto simp: select_unique_opens_def split: option.splits)
  have "set (List.map_filter ev_ip (filter (\<lambda>ev. ev_email_id ev = i \<and> ev_event_type ev = Open) evs))
        = {ip. \<exists>ev \<in> set evs. ev_email_id ev = i \<and> ev_event_type ev = Open \<and> ev_ip ev = Some ip}"
    by (auto simp: set_map_filter)
  with n evs d show ?thesis
    by (simp add: length_remdups_card_conv rows_of_def)
qed

text \<open>
  C8. Whenever the detail of an email is returned, its \<^verbatim>\<open>unique_opens\<close> is the number of
  distinct client-IP values among the open events of that email: opens repeated from one
  IP count once, opens from n distinct IPs count n.
\<close>

theorem unique_opens_counts_distinct_ips:
  assumes "fst (get_email en email_id w) = Inr (Inr detail)"
  shows "d_unique_opens detail =
           card {ip. \<exists>ev \<in> set (rows_of (events (disk w))).
                   ev_email_id ev = email_id \<and> ev_event_type ev = Open \<and> ev_ip ev = Some ip}"
proof -
  obtain w' where run: "get_email en email_id w = (Inr (Inr detail), w')"
    using assms by (cases "get_email en email_id w") auto
  from run obtain u w1 rows w2 w3 where
    g: "get_db en w = (Inr u, w1)"
    and sel: "execute en (Select Emails) (select_email email_id) w1 = (Inr rows, w2)"
    and rest: "(case rows of
          [] \<Rightarrow> return_io (Inl (JSONResponse [(''error'', JStr ''Not found'')] 404))
        | row # _ \<Rightarrow>
            bind_io (execute en (Select Events) (select_timeline email_id)) (\<lambda>timeline.
            bind_io (execute en (Select Events) (select_unique_opens email_id)) (\<lambda>unique_opens.
            bind_io (execute en (Select Events) (select_counts email_id)) (\<lambda>counts.
            bind_io (execute en (Select Links) (select_link_stats email_id)) (\<lambda>link_stats.
            return_io (Inr \<lparr>d_email = row, d_events = timeline, d_unique_opens = unique_opens,
                            d_total_opens = fst counts, d_total_clicks = snd counts,
                            d_link_stats = link_stats\<rparr>)))))) w2 = (Inr (Inr detail), w3)"
    unfolding get_email_def
    by (elim bind_io_Inr finally_io_result) blast
  from get_db_Inr [OF g] have "conn w1 = Some (disk w)" by simp
  with sel have c2: "conn w2 = Some (disk w)"
    by (auto elim!: execute_Inr dest: select_email_keeps)
  from rest obtain row more where rows: "rows = row # more"
    by (cases rows) (auto simp: return_io_eq)
  from rest rows obtain timeline w4 n w5 where
    tl: "execute en (Select Events) (select_timeline email_id) w2 = (Inr timeline, w4)"
    and uo: "execute en (Select Events) (select_unique_opens email_id) w4 = (Inr n, w5)"
    and n: "d_unique_opens detail = n"
    by (auto simp: return_io_eq elim!: bind_io_Inr)
  from tl c2 have "conn w4 = Some (disk w)"
    by (auto elim!: execute_Inr dest: select_timeline_keeps)
  with uo have "select_unique_opens email_id (disk w) = Inr (n, disk w)"
    by (auto elim!: execute_Inr dest: select_unique_opens_Inr)
  from select_unique_opens_Inr [OF this] n show ?thesis by simp
qed

text \<open>An instance: five opens from one address and one from another give 2 unique opens.\<close>

theorem unique_opens_counts_distinct_ips_witness:
  "fst (get_email env_ok ''x'' opened) =
     Inr (Inr (projr (projr (fst (get_email env_ok ''x'' opened))))) \<and>
   d_total_opens (projr (projr (fst (get_email env_ok ''x'' opened)))) = 6 \<and>
   d_unique_opens (projr (projr (fst (get_email env_ok ''x'' opened)))) = 2 \<and>
   card {ip. \<exists>ev \<in> set (rows_of (events (disk opened))).
           ev_email_id ev = ''x'' \<and> ev_event_type ev = Open \<and> ev_ip ev = Some ip} = 2"
proof -
  have h: "fst (get_email env_ok ''x'' opened) =
     Inr (Inr (projr (projr (fst (get_email env_ok ''x'' opened)))))" by code_simp
  have t: "d_total_opens (projr (projr (fst (get_email env_ok ''x'' opened)))) = 6" by code_simp
  have u: "d_unique_opens (projr (projr (fst (get_email env_ok ''x'' opened)))) = 2" by code_simp
  from unique_opens_counts_distinct_ips [OF h] u h t show ?thesis by simp
qed

section \<open>The invariant, statement by statement\<close>

lemma rows_of_simps [simp]: "rows_of None = []" "rows_of (Some rows) = rows"
  by (simp_all add: rows_of_def)

lemma kind_link_ok_iff:
  "kind_link_ok ls ev \<longleftrightarrow>
     (ev_event_type ev = Open \<longrightarrow> ev_link_id ev = None) \<and>
     (ev_event_type ev = Click \<longrightarrow>
        (\<exists>lid l. ev_link_id ev = Some lid \<and> filter (\<lambda>l. l_id l = lid) ls = [l] \<and>
                 l_email_id l = ev_email_id ev))"
  by (cases "ev_event_type ev"; cases "ev_link_id ev")
     (auto simp: kind_link_ok_def split: list.splits)

lemma db_inv_iff:
  "db_inv d \<longleftrightarrow>
     distinct (map e_id (rows_of (emails d))) \<and>
     distinct (map l_id (rows_of (links d))) \<and>
     (\<forall>l \<in> set (rows_of (links d)). l_email_id l \<in> e_id ` set (rows_of (emails d))) \<and>
     (\<forall>ev \<in> set (rows_of (events d)).
        ev_email_id ev \<in> e_id ` set (rows_of (emails d)) \<and>
        (\<forall>l. ev_link_id ev = Some l \<longrightarrow> l \<in> l_id ` set (rows_of (links d))) \<and>
        kind_link_ok (rows_of (links d)) ev)"
  by (auto simp: db_inv_def fk_inv_def kind_link_inv_def list_all_iff split: option.splits)

lemma db_inv_tables:
  assumes "db_inv d"
    and "rows_of (emails d') = rows_of (emails d)"
    and "rows_of (links d') = rows_of (links d)"
    and "rows_of (events d') = rows_of (events d)"
  shows "db_inv d'"
  using assms by (simp add: db_inv_iff)

lemma create_emails_inv: "db_inv d \<Longrightarrow> create_emails d = Inr (r, d') \<Longrightarrow> db_inv d'"
  by (erule db_inv_tables) (auto simp: create_emails_def split: option.splits)

lemma create_links_inv: "db_inv d \<Longrightarrow> create_links d = Inr (r, d') \<Longrightarrow> db_inv d'"
  by (erule db_inv_tables) (auto simp: create_links_def split: option.splits)

lemma create_events_inv: "db_inv d \<Longrightarrow> create_events d = Inr (r, d') \<Longrightarrow> db_inv d'"
  by (erule db_inv_tables) (auto simp: create_events_def split: option.splits)

lemma create_indexes_inv: "db_inv d \<Longrightarrow> create_indexes d = Inr (r, d') \<Longrightarrow> db_inv d'"
  by (erule db_inv_tables) (auto simp: create_indexes_def split: option.splits)

lemma insert_or_ignore_ip_inv:
  "db_inv d \<Longrightarrow> insert_or_ignore_ip ip label ts d = Inr (r, d') \<Longrightarrow> db_inv d'"
  by (erule db_inv_tables)
     (auto simp: insert_or_ignore_ip_def split: option.splits sum.splits if_splits)

lemma delete_ignored_stmt_inv:
  "db_inv d \<Longrightarrow> delete_ignored_stmt ip d = Inr (r, d') \<Longrightarrow> db_inv d'"
  by (erule db_inv_tables) (auto simp: delete_ignored_stmt_def split: option.splits)

lemma insert_or_ignore_email_inv:
  assumes "db_inv d" and "insert_or_ignore_email tracking_id ts d = Inr (r, d')"
  shows "db_inv d'"
proof -
  from assms(2) obtain rows where rows: "emails d = Some rows"
    and d': "d' = (if tracking_id \<in> set (map e_id rows) then d
                  else d\<lparr>emails := Some (rows @ [\<lparr>e_id = tracking_id, e_subject = [],
                          e_recipient = [], e_created_at = ts\<rparr>])\<rparr>)"
    by (auto simp: insert_or_ignore_email_def split: option.splits if_splits)
  show ?thesis
  proof (cases "tracking_id \<in> set (map e_id rows)")
    case True
    with d' assms(1) show ?thesis by simp
  next
    case False
    with d' rows assms(1) show ?thesis
      by (auto simp: db_inv_iff)
  qed
qed

lemma upsert_email_inv:
  assumes "db_inv d" and "upsert_email ei es er ts d = Inr (u, d')"
  shows "db_inv d'"
proof -
  from assms(2) obtain rows i s r where rows: "emails d = Some rows"
    and d': "d' = d\<lparr>emails := Some (if i \<in> set (map e_id rows) then map (upsert_row i s r) rows
            else rows @ [\<lparr>e_id = i, e_subject = s, e_recipient = r, e_created_at = ts\<rparr>])\<rparr>"
    by (elim upsert_email_Inr)
  have m: "map e_id (map (upsert_row i s r) rows) = map e_id rows"
    by (simp add: comp_def)
  have im: "e_id ` upsert_row i s r ` set rows = e_id ` set rows"
    by (simp add: image_image)
  show ?thesis
  proof (cases "i \<in> set (map e_id rows)")
    case True
    with d' rows assms(1) m im show ?thesis
      by (simp add: db_inv_iff del: map_map)
  next
    case False
    with d' rows assms(1) show ?thesis
      by (auto simp: db_inv_iff)
  qed
qed

lemma insert_event_Inr:
  assumes "insert_event eid lid ty ts ip ua c d = Inr (r, d')"
  shows "\<exists>evs es ls n. events d = Some evs \<and> emails d = Some es \<and> links d = Some ls \<and>
     eid \<in> e_id ` set es \<and> (\<forall>l. lid = Some l \<longrightarrow> l \<in> l_id ` set ls) \<and>
     d' = d\<lparr>events := Some (evs @
                    [\<lparr>ev_id = n, ev_email_id = eid, ev_link_id = lid,
                      ev_event_type = ty, ev_timestamp = ts, ev_ip = Some ip,
                      ev_user_agent = Some ua, ev_country = Some c\<rparr>]),
                   events_seq := n\<rparr>"
  using assms
  by (auto simp: insert_event_def Let_def split: option.splits if_splits)

lemma insert_open_event_inv:
  assumes "db_inv d" and "insert_event eid None Open ts ip ua c d = Inr (r, d')"
  shows "db_inv d'"
proof -
  from insert_event_Inr [OF assms(2)] obtain evs es ls n where
    t: "events d = Some evs" "emails d = Some es" "links d = Some ls" "eid \<in> e_id ` set es"
    and d': "d' = d\<lparr>events := Some (evs @
                    [\<lparr>ev_id = n, ev_email_id = eid, ev_link_id = None,
                      ev_event_type = Open, ev_timestamp = ts, ev_ip = Some ip,
                      ev_user_agent = Some ua, ev_country = Some c\<rparr>]),
                   events_seq := n\<rparr>"
    by blast
  from assms(1) t show ?thesis
    unfolding d' db_inv_iff by (simp add: kind_link_ok_iff)
qed

lemma filter_distinct_key:
  assumes "distinct (map f xs)" and "x \<in> set xs"
  shows "filter (\<lambda>y. f y = f x) xs = [x]"
  using assms
proof (induction xs)
  case Nil
  then show ?case by simp
next
  case (Cons a xs)
  show ?case
  proof (cases "a = x")
    case True
    with Cons.prems have "f x \<notin> f ` set xs" by simp
    then have "\<forall>y \<in> set xs. f y \<noteq> f x" by (metis imageI)
    then have "filter (\<lambda>y. f y = f x) xs = []" by (simp add: filter_empty_conv)
    with True show ?thesis by simp
  next
    case False
    with Cons.prems have "x \<in> set xs" "f a \<noteq> f x" "distinct (map f xs)" by auto
    with Cons.IH show ?thesis by simp
  qed
qed

lemma insert_click_event_inv:
  assumes "db_inv d" and "lnk \<in> set (rows_of (links d))"
    and "insert_event (l_email_id lnk) (Some (l_id lnk)) Click ts ip ua c d = Inr (r, d')"
  shows "db_inv d'"
proof -
  from assms(1) have "distinct (map l_id (rows_of (links d)))" by (simp add: db_inv_iff)
  from filter_distinct_key [OF this assms(2)]
  have f: "filter (\<lambda>l. l_id l = l_id lnk) (rows_of (links d)) = [lnk]" .
  from insert_event_Inr [OF assms(3)] obtain evs es ls n where
    t: "events d = Some evs" "emails d = Some es" "links d = Some ls"
       "l_email_id lnk \<in> e_id ` set es" "l_id lnk \<in> l_id ` set ls"
    and d': "d' = d\<lparr>events := Some (evs @
                    [\<lparr>ev_id = n, ev_email_id = l_email_id lnk, ev_link_id = Some (l_id lnk),
                      ev_event_type = Click, ev_timestamp = ts, ev_ip = Some ip,
                      ev_user_agent = Some ua, ev_country = Some c\<rparr>]),
                   events_seq := n\<rparr>"
    by blast
  from assms(1) t f show ?thesis
    unfolding d' db_inv_iff by (simp add: kind_link_ok_iff)
qed
lemma insert_link_Inr:
  assumes "insert_link link_id ei url d = Inr (r, d')"
  shows "\<exists>rows es i u. links d = Some rows \<and> emails d = Some es \<and>
     link_id \<notin> l_id ` set rows \<and> i \<in> e_id ` set es \<and>
     d' = d\<lparr>links := Some (rows @ [\<lparr>l_id = link_id, l_email_id = i, l_original_url = u\<rparr>])\<rparr>"
  using assms
  by (auto simp: insert_link_def split: option.splits sum.splits if_splits)

lemma insert_link_inv:
  assumes "db_inv d" and "insert_link link_id ei url d = Inr (r, d')"
  shows "db_inv d'"
proof -
  from insert_link_Inr [OF assms(2)] obtain rows es i u where
    rows: "links d = Some rows" and es: "emails d = Some es"
    and new: "link_id \<notin> l_id ` set rows" and i: "i \<in> e_id ` set es"
    and d': "d' = d\<lparr>links := Some (rows @ [\<lparr>l_id = link_id, l_email_id = i, l_original_url = u\<rparr>])\<rparr>"
    by blast
  let ?new = "\<lparr>l_id = link_id, l_email_id = i, l_original_url = u\<rparr>"
  have keep: "filter (\<lambda>l. l_id l = lid) (rows @ [?new]) = [l]"
    if f: "filter (\<lambda>l. l_id l = lid) rows = [l]" for lid l
  proof -
    from f have "l \<in> set (filter (\<lambda>l. l_id l = lid) rows)" by simp
    then have "lid \<in> l_id ` set rows" by auto
    with new have "link_id \<noteq> lid" by auto
    with f show ?thesis by simp
  qed
  have k: "kind_link_ok (rows @ [?new]) ev" if "kind_link_ok rows ev" for ev
    using that keep unfolding kind_link_ok_iff by blast
  from assms(1) rows es new i k show ?thesis
    unfolding d' db_inv_iff by auto
qed
lemma rows_of_map_option: "rows_of (map_option f t) = (case t of None \<Rightarrow> [] | Some rows \<Rightarrow> f rows)"
  by (cases t) simp_all

text \<open>What the cascading delete leaves, when the email exists.\<close>

lemma delete_email_stmt_tables:
  assumes "delete_email_stmt x d = Inr (r, d')" and "emails d = Some es" and "x \<in> set (map e_id es)"
  shows "events d' = map_option (filter (\<lambda>ev. ev_email_id ev \<noteq> x \<and>
           (case ev_link_id ev of None \<Rightarrow> True | Some l \<Rightarrow> l \<notin> set (case links d of None \<Rightarrow> []
               | Some ls \<Rightarrow> map l_id (filter (\<lambda>l. l_email_id l = x) ls))))) (events d)"
   and "links d' = map_option (filter (\<lambda>l. l_email_id l \<noteq> x)) (links d)"
   and "emails d' = Some (filter (\<lambda>e. e_id e \<noteq> x) es)"
  using assms by (auto simp: delete_email_stmt_def Let_def simp del: set_map)

lemma set_rows_of_filtered:
  assumes "t' = map_option (filter P) t"
  shows "set (rows_of t') = {row \<in> set (rows_of t). P row}"
  using assms by (cases t) auto

lemma delete_email_stmt_rows:
  assumes "delete_email_stmt x d = Inr (r, d')" and "x \<in> e_id ` set (rows_of (emails d))"
  shows "rows_of (emails d') = filter (\<lambda>e. e_id e \<noteq> x) (rows_of (emails d))"
    and "rows_of (links d') = filter (\<lambda>l. l_email_id l \<noteq> x) (rows_of (links d))"
    and "set (rows_of (events d')) =
           {ev \<in> set (rows_of (events d)). ev_email_id ev \<noteq> x \<and>
              (\<forall>l. ev_link_id ev = Some l \<longrightarrow>
                 l \<notin> l_id ` {lk \<in> set (rows_of (links d)). l_email_id lk = x})}"
proof -
  from assms obtain es where es: "emails d = Some es" and x: "x \<in> set (map e_id es)"
    by (cases "emails d") auto
  note t = delete_email_stmt_tables [OF assms(1) es x]
  let ?dead = "case links d of None \<Rightarrow> []
               | Some ls \<Rightarrow> map l_id (filter (\<lambda>l. l_email_id l = x) ls)"
  have dead: "set ?dead = l_id ` {lk \<in> set (rows_of (links d)). l_email_id lk = x}"
    by (cases "links d") auto
  show "rows_of (emails d') = filter (\<lambda>e. e_id e \<noteq> x) (rows_of (emails d))"
    using es t(3) by simp
  show "rows_of (links d') = filter (\<lambda>l. l_email_id l \<noteq> x) (rows_of (links d))"
    using t(2) by (cases "links d") simp_all
  have "set (rows_of (events d')) =
           {ev \<in> set (rows_of (events d)). ev_email_id ev \<noteq> x \<and>
              (case ev_link_id ev of None \<Rightarrow> True | Some l \<Rightarrow> l \<notin> set ?dead)}"
    by (rule set_rows_of_filtered) (rule t(1))
  then show "set (rows_of (events d')) =
           {ev \<in> set (rows_of (events d)). ev_email_id ev \<noteq> x \<and>
              (\<forall>l. ev_link_id ev = Some l \<longrightarrow>
                 l \<notin> l_id ` {lk \<in> set (rows_of (links d)). l_email_id lk = x})}"
    unfolding dead by (auto split: option.splits)
qed

lemma delete_email_stmt_inv:
  assumes "db_inv d" and "delete_email_stmt x d = Inr (r, d')"
  shows "db_inv d'"
proof (cases "x \<in> e_id ` set (rows_of (emails d))")
  case False
  with assms show ?thesis
    by (auto simp: delete_email_stmt_def split: option.splits if_splits)
next
  case True
  let ?E = "rows_of (emails d)" and ?L = "rows_of (links d)" and ?V = "rows_of (events d)"
  note rows = delete_email_stmt_rows [OF assms(2) True]
  from assms(1) have
    dE: "distinct (map e_id ?E)" and dL: "distinct (map l_id ?L)" and
    fL: "\<forall>l \<in> set ?L. l_email_id l \<in> e_id ` set ?E" and
    fV: "\<forall>ev \<in> set ?V. ev_email_id ev \<in> e_id ` set ?E \<and>
           (\<forall>l. ev_link_id ev = Some l \<longrightarrow> l \<in> l_id ` set ?L) \<and> kind_link_ok ?L ev"
    by (simp_all add: db_inv_iff)
  have 1: "distinct (map e_id (filter (\<lambda>e. e_id e \<noteq> x) ?E))"
    using dE by (simp add: distinct_map_filter)
  have 2: "distinct (map l_id (filter (\<lambda>l. l_email_id l \<noteq> x) ?L))"
    using dL by (simp add: distinct_map_filter)
  have 3: "l_email_id l \<in> e_id ` set (filter (\<lambda>e. e_id e \<noteq> x) ?E)"
    if "l \<in> set ?L" "l_email_id l \<noteq> x" for l
    using that fL by auto
  have 4: "ev_email_id ev \<in> e_id ` set (filter (\<lambda>e. e_id e \<noteq> x) ?E)"
    if "ev \<in> set ?V" "ev_email_id ev \<noteq> x" for ev
    using that fV by auto
  have 5: "l \<in> l_id ` set (filter (\<lambda>l. l_email_id l \<noteq> x) ?L)"
    if "ev \<in> set ?V" "ev_link_id ev = Some l"
       "l \<notin> l_id ` {lk \<in> set ?L. l_email_id lk = x}" for ev l
  proof -
    from that(1,2) fV have "l \<in> l_id ` set ?L" by blast
    then obtain lk where lk: "lk \<in> set ?L" "l_id lk = l" by auto
    with that(3) have "l_email_id lk \<noteq> x" by auto
    with lk show ?thesis by auto
  qed
  have 6: "kind_link_ok (filter (\<lambda>l. l_email_id l \<noteq> x) ?L) ev"
    if "ev \<in> set ?V" "ev_email_id ev \<noteq> x" for ev
  proof -
    from that fV have k: "kind_link_ok ?L ev" by auto
    have "filter (\<lambda>l. l_id l = lid) (filter (\<lambda>l. l_email_id l \<noteq> x) ?L) = [l]"
      if "filter (\<lambda>l. l_id l = lid) ?L = [l]" "l_email_id l \<noteq> x" for lid l
    proof -
      have "filter (\<lambda>l. l_id l = lid) (filter (\<lambda>l. l_email_id l \<noteq> x) ?L) =
            filter (\<lambda>l. l_email_id l \<noteq> x) (filter (\<lambda>l. l_id l = lid) ?L)"
        by (simp add: conj_commute)
      with that show ?thesis by simp
    qed
    with k \<open>ev_email_id ev \<noteq> x\<close> show ?thesis
      unfolding kind_link_ok_iff by metis
  qed
  show ?thesis
    unfolding db_inv_iff rows
  proof (intro conjI ballI allI impI)
    show "distinct (map e_id (filter (\<lambda>e. e_id e \<noteq> x) ?E))" by (rule 1)
    show "distinct (map l_id (filter (\<lambda>l. l_email_id l \<noteq> x) ?L))" by (rule 2)
  next
    fix l assume "l \<in> set (filter (\<lambda>l. l_email_id l \<noteq> x) ?L)"
    then show "l_email_id l \<in> e_id ` set (filter (\<lambda>e. e_id e \<noteq> x) ?E)"
      using 3 by simp
  next
    fix ev
    assume ev: "ev \<in> {ev \<in> set ?V. ev_email_id ev \<noteq> x \<and>
              (\<forall>l. ev_link_id ev = Some l \<longrightarrow> l \<notin> l_id ` {lk \<in> set ?L. l_email_id lk = x})}"
    then show "ev_email_id ev \<in> e_id ` set (filter (\<lambda>e. e_id e \<noteq> x) ?E)"
      using 4 by simp
    from ev show "kind_link_ok (filter (\<lambda>l. l_email_id l \<noteq> x) ?L) ev"
      using 6 by simp
    fix l assume "ev_link_id ev = Some l"
    with ev 5 [of ev l] show "l \<in> l_id ` set (filter (\<lambda>l. l_email_id l \<noteq> x) ?L)"
      by blast
  qed
qed

section \<open>The invariant, handler by handler\<close>

lemma preserves_select:
  assumes "\<And>d r d'. f d = Inr (r, d') \<Longrightarrow> d' = d"
  shows "preserves P (execute en s f)"
  by (rule preserves_execute) (use assms in blast)

lemma preserves_close_return: "preserves P (\<lambda>w. (Inr x, close w))"
  by (simp add: preserves_def winv_close)

lemma preserves_read_index: "preserves P (read_index en)"
  by (cases "index_html en") (simp_all add: read_index_def preserves_raise preserves_return)

lemma select_ignored_keeps: "select_ignored ip d = Inr (r, d') \<Longrightarrow> d' = d"
  by (auto simp: select_ignored_def split: option.splits)

lemma select_link_keeps: "select_link i d = Inr (r, d') \<Longrightarrow> d' = d"
  by (auto simp: select_link_def split: option.splits)

lemma count_emails_keeps: "count_emails s d = Inr (r, d') \<Longrightarrow> d' = d"
  by (auto simp: count_emails_def split: option.splits)

lemma select_page_keeps: "select_page s n k d = Inr (r, d') \<Longrightarrow> d' = d"
  by (auto simp: select_page_def split: option.splits)

lemma select_counts_keeps: "select_counts i d = Inr (r, d') \<Longrightarrow> d' = d"
  by (auto simp: select_counts_def Let_def split: option.splits)

lemma select_unique_opens_keeps: "select_unique_opens i d = Inr (r, d') \<Longrightarrow> d' = d"
  by (auto simp: select_unique_opens_def split: option.splits)

lemma select_link_stats_keeps: "select_link_stats i d = Inr (r, d') \<Longrightarrow> d' = d"
  by (auto simp: select_link_stats_def split: option.splits)

lemma select_totals_keeps: "select_totals d = Inr (r, d') \<Longrightarrow> d' = d"
  by (auto simp: select_totals_def split: option.splits)

lemma select_opened_keeps: "select_opened d = Inr (r, d') \<Longrightarrow> d' = d"
  by (auto simp: select_opened_def split: option.splits)

lemma select_activity_keeps: "select_activity t d = Inr (r, d') \<Longrightarrow> d' = d"
  by (auto simp: select_activity_def Let_def split: option.splits)

lemma select_all_ignored_keeps: "select_all_ignored d = Inr (r, d') \<Longrightarrow> d' = d"
  by (auto simp: select_all_ignored_def split: option.splits)

lemma select_rules:
  "preserves P (execute en s (select_ignored ip))"
  "preserves P (execute en s (select_link i))"
  "preserves P (execute en s (count_emails q))"
  "preserves P (execute en s (select_page q n k))"
  "preserves P (execute en s (select_email i))"
  "preserves P (execute en s (select_timeline i))"
  "preserves P (execute en s (select_unique_opens i))"
  "preserves P (execute en s (select_counts i))"
  "preserves P (execute en s (select_link_stats i))"
  "preserves P (execute en s select_totals)"
  "preserves P (execute en s select_opened)"
  "preserves P (execute en s (select_activity t))"
  "preserves P (execute en s select_all_ignored)"
  by (rule preserves_select, erule select_ignored_keeps select_link_keeps count_emails_keeps select_page_keeps select_email_keeps select_timeline_keeps select_unique_opens_keeps select_counts_keeps select_link_stats_keeps select_totals_keeps select_opened_keeps select_activity_keeps select_all_ignored_keeps)+

lemma write_rules:
  "preserves db_inv (execute en s (insert_or_ignore_email t ts))"
  "preserves db_inv (execute en s (insert_event e None Open ts ip ua c))"
  "preserves db_inv (execute en s (delete_email_stmt i))"
  "preserves db_inv (execute en s (insert_or_ignore_ip jip label ts))"
  "preserves db_inv (execute en s (delete_ignored_stmt ip2))"
  "preserves db_inv (autocommit en s create_emails)"
  "preserves db_inv (autocommit en s create_links)"
  "preserves db_inv (autocommit en s create_events)"
  "preserves db_inv (autocommit en s create_indexes)"
  by (rule preserves_execute preserves_autocommit,
      erule insert_or_ignore_email_inv insert_open_event_inv delete_email_stmt_inv insert_or_ignore_ip_inv delete_ignored_stmt_inv create_emails_inv create_links_inv create_events_inv create_indexes_inv, assumption)+

lemmas flow_rules = preserves_bind preserves_finally_close preserves_return preserves_raise
  preserves_commit preserves_geolocate_ip preserves_pure preserves_close_return
  preserves_read_index

lemma init_db_inv: "db_inv (disk w) \<Longrightarrow> db_inv (disk (snd (init_db en w)))"
  unfolding init_db_def
  by (rule handler_preserves [where P = db_inv]) (intro flow_rules write_rules, assumption)

lemma track_open_inv: "db_inv (disk w) \<Longrightarrow> db_inv (disk (snd (track_open en t request w)))"
  unfolding track_open_def Let_def
  by (rule handler_preserves [where P = db_inv])
     (auto intro!: flow_rules write_rules select_rules)

lemma delete_email_inv: "db_inv (disk w) \<Longrightarrow> db_inv (disk (snd (delete_email en i w)))"
  unfolding delete_email_def
  by (rule handler_preserves [where P = db_inv])
     (auto intro!: flow_rules write_rules select_rules)

lemma add_ignored_ip_inv:
  "db_inv (disk w) \<Longrightarrow> db_inv (disk (snd (add_ignored_ip en body request w)))"
  unfolding add_ignored_ip_def Let_def
  by (rule handler_preserves [where P = db_inv])
     (auto intro!: flow_rules write_rules select_rules)

lemma remove_ignored_ip_inv:
  "db_inv (disk w) \<Longrightarrow> db_inv (disk (snd (remove_ignored_ip en ip w)))"
  unfolding remove_ignored_ip_def
  by (rule handler_preserves [where P = db_inv])
     (auto intro!: flow_rules write_rules select_rules)

lemma dashboard_inv: "db_inv (disk w) \<Longrightarrow> db_inv (disk (snd (dashboard en request w)))"
proof -
  assume inv: "db_inv (disk w)"
  have a: "db_inv (disk (snd (bind_io (get_db en) (\<lambda>_.
        bind_io
          (finally_io
             (bind_io (execute en (Insert IgnoredIps)
                         (insert_or_ignore_ip (JStr (client_ip request))
                            (JStr ''Auto-detected (dashboard visit)'') (now en))) (\<lambda>_.
              commit en))
             close) (\<lambda>_.
        read_index en)) w)))"
    by (rule handler_preserves [where P = db_inv])
       (auto intro!: flow_rules write_rules simp: inv)
  have b: "disk (snd (read_index en w)) = disk w"
    by (cases "index_html en") (simp_all add: read_index_def raise_io_def return_io_def)
  from a b inv show ?thesis
    by (simp add: dashboard_def Let_def)
qed

lemma list_emails_inv:
  "db_inv (disk w) \<Longrightarrow> db_inv (disk (snd (list_emails en page per_page search w)))"
proof (cases "page < 1 \<or> per_page < 1 \<or> per_page > 200")
  case True
  assume "db_inv (disk w)"
  with True show ?thesis by (simp add: list_emails_def raise_io_def)
next
  case False
  assume "db_inv (disk w)"
  with False show ?thesis
    unfolding list_emails_def Let_def
    by (simp only: if_False)
       (rule handler_preserves [where P = db_inv], auto intro!: flow_rules select_rules)
qed

lemma get_email_inv: "db_inv (disk w) \<Longrightarrow> db_inv (disk (snd (get_email en i w)))"
  unfolding get_email_def
  by (rule handler_preserves [where P = db_inv])
     (auto intro!: flow_rules select_rules split: list.splits)

lemma get_stats_inv: "db_inv (disk w) \<Longrightarrow> db_inv (disk (snd (get_stats en w)))"
  unfolding get_stats_def
  by (rule handler_preserves [where P = db_inv])
     (auto intro!: flow_rules select_rules)

lemma list_ignored_ips_inv: "db_inv (disk w) \<Longrightarrow> db_inv (disk (snd (list_ignored_ips en w)))"
  unfolding list_ignored_ips_def
  by (rule handler_preserves [where P = db_inv])
     (auto intro!: flow_rules select_rules)

lemma create_email_inv: "db_inv (disk w) \<Longrightarrow> db_inv (disk (snd (create_email en body w)))"
  by (rule create_email_preserves [where P = db_inv])
     (auto intro: insert_link_inv upsert_email_inv)

lemma geolocate_ip_world:
  assumes "geolocate_ip en ip w = (r, w')"
  shows "disk w' = disk w \<and> conn w' = conn w"
  using assms
  by (auto simp: geolocate_ip_def log_step_def Let_def split: if_splits geo_reply.splits)

text \<open>What a click that returns did to the file.\<close>

lemma track_click_disk:
  assumes "track_click en link_id request w = (Inr resp, w')"
  shows "disk w' = disk w \<or>
         (\<exists>lnk u c. lnk \<in> set (rows_of (links (disk w))) \<and> l_id lnk = link_id \<and>
            insert_event (l_email_id lnk) (Some link_id) Click (now en) (client_ip request)
              (user_agent request) c (disk w) = Inr (u, disk w'))"
proof -
  let ?ip = "client_ip request"
  from assms obtain u w1 rows w2 w3 where
    g: "get_db en w = (Inr u, w1)"
    and sel: "execute en (Select Links) (select_link link_id) w1 = (Inr rows, w2)"
    and rest: "(case rows of
          [] \<Rightarrow> return_io (JSONResponse [(''error'', JStr ''Link not found'')] 404)
        | lnk # _ \<Rightarrow>
             bind_io (execute en (Select IgnoredIps) (select_ignored ?ip)) (\<lambda>ignored.
             bind_io
               (if ignored = [] then
                  bind_io (geolocate_ip en ?ip) (\<lambda>country.
                  bind_io (execute en (Insert Events)
                             (insert_event (l_email_id lnk) (Some link_id) Click (now en) ?ip
                                (user_agent request) country)) (\<lambda>_.
                  commit en))
                else return_io ()) (\<lambda>_.
             return_io (RedirectResponse (l_original_url lnk) 302)))) w2 = (Inr resp, w3)"
    and w': "w' = close w3"
    unfolding track_click_def Let_def
    by (elim bind_io_Inr finally_io_result) blast
  from get_db_Inr [OF g] have c1: "conn w1 = Some (disk w)" and d1: "disk w1 = disk w" by simp_all
  from sel c1 d1 have c2: "conn w2 = Some (disk w)" and d2: "disk w2 = disk w"
    and rows: "select_link link_id (disk w) = Inr (rows, disk w)"
    by (auto simp: log_step_def elim!: execute_Inr dest: select_link_keeps)
  show ?thesis
  proof (cases rows)
    case Nil
    with rest d2 w' show ?thesis by (simp add: return_io_eq close_def log_step_def)
  next
    case (Cons lnk more)
    from rows Cons have "filter (\<lambda>l. l_id l = link_id) (rows_of (links (disk w))) = lnk # more"
      by (auto simp: select_link_def split: option.splits)
    then have "lnk \<in> set (filter (\<lambda>l. l_id l = link_id) (rows_of (links (disk w))))"
      by (simp del: set_filter)
    then have lnk: "lnk \<in> set (rows_of (links (disk w)))" "l_id lnk = link_id" by auto
    from rest Cons obtain ignored w4 u5 w5 where
      sel2: "execute en (Select IgnoredIps) (select_ignored ?ip) w2 = (Inr ignored, w4)"
      and wr: "(if ignored = [] then
                  bind_io (geolocate_ip en ?ip) (\<lambda>country.
                  bind_io (execute en (Insert Events)
                             (insert_event (l_email_id lnk) (Some link_id) Click (now en) ?ip
                                (user_agent request) country)) (\<lambda>_.
                  commit en))
                else return_io ()) w4 = (Inr u5, w5)"
      and w3: "w3 = w5"
      by (auto simp: return_io_eq elim!: bind_io_Inr)
    from sel2 c2 d2 have c4: "conn w4 = Some (disk w)" and d4: "disk w4 = disk w"
      by (auto simp: log_step_def elim!: execute_Inr dest: select_ignored_keeps)
    show ?thesis
    proof (cases "ignored = []")
      case False
      with wr d4 w3 w' show ?thesis by (simp add: return_io_eq close_def log_step_def)
    next
      case True
      with wr obtain country w6 u7 w7 where
        geo: "geolocate_ip en ?ip w4 = (Inr country, w6)"
        and ins: "execute en (Insert Events)
                    (insert_event (l_email_id lnk) (Some link_id) Click (now en) ?ip
                       (user_agent request) country) w6 = (Inr u7, w7)"
        and com: "commit en w7 = (Inr u5, w5)"
        by (auto elim!: bind_io_Inr)
      from geolocate_ip_world [OF geo] c4 have c6: "conn w6 = Some (disk w)" by simp
      from ins c6 obtain d7 where c7: "conn w7 = Some d7"
        and ev: "insert_event (l_email_id lnk) (Some link_id) Click (now en) ?ip
                   (user_agent request) country (disk w) = Inr (u7, d7)"
        by (auto elim!: execute_Inr)
      from com c7 have "disk w5 = d7" by (auto elim!: commit_Inr)
      with w3 w' have "disk w' = d7" by (simp add: close_def log_step_def)
      with ev lnk show ?thesis by blast
    qed
  qed
qed

lemma track_click_inv:
  assumes "db_inv (disk w)"
  shows "db_inv (disk (snd (track_click en link_id request w)))"
proof (cases "track_click en link_id request w")
  case (Pair r w')
  show ?thesis
  proof (cases r)
    case (Inl e)
    with Pair track_click_commits_last [of en link_id request] assms show ?thesis
      by (auto simp: commits_last_def dest!: spec [of _ w])
  next
    case (Inr resp)
    from track_click_disk [of en link_id request w resp w'] Pair Inr
    consider "disk w' = disk w"
      | lnk u c where "lnk \<in> set (rows_of (links (disk w)))" "l_id lnk = link_id"
          "insert_event (l_email_id lnk) (Some link_id) Click (now en) (client_ip request)
              (user_agent request) c (disk w) = Inr (u, disk w')"
      by auto
    then show ?thesis
    proof cases
      case 1
      with Pair assms show ?thesis by simp
    next
      case 2
      from insert_click_event_inv [OF assms 2(1)] 2(2,3) have "db_inv (disk w')" by auto
      with Pair show ?thesis by simp
    qed
  qed
qed

lemma perform_inv: "db_inv (disk w) \<Longrightarrow> db_inv (disk (perform en c w))"
  by (cases c)
     (simp_all add: init_db_inv track_open_inv track_click_inv create_email_inv list_emails_inv
        get_email_inv delete_email_inv get_stats_inv list_ignored_ips_inv add_ignored_ip_inv
        remove_ignored_ip_inv dashboard_inv)

lemma run_inv: "db_inv (disk w) \<Longrightarrow> db_inv (disk (run calls w))"
proof (induction calls arbitrary: w)
  case Nil
  then show ?case by simp
next
  case (Cons a calls)
  obtain en c where a: "a = (en, c)" by (cases a)
  from Cons.prems have "db_inv (disk (perform en c w))" by (rule perform_inv)
  from Cons.IH [OF this] a show ?case by simp
qed

lemma db_inv_empty: "db_inv empty_db"
  by (simp add: db_inv_iff empty_db_def)

text \<open>
  C5. In every state the service reaches, from a fresh database file or from any file
  that satisfies the invariant, every event row satisfies the kind/link invariant: an
  event of kind open references no link, and an event of kind click references a link id
  carried by exactly one link row, which belongs to the event's email. No call, whatever
  its arguments and whatever the storage fails, breaks it.
\<close>

theorem kind_link_invariant:
  "(db_inv (disk w) \<longrightarrow> kind_link_inv (disk (run calls w))) \<and>
   kind_link_inv (disk (run calls fresh))"
proof -
  have "db_inv (disk fresh)" by (simp add: fresh_def db_inv_empty)
  then have "db_inv (disk (run calls fresh))" by (rule run_inv)
  moreover have "db_inv (disk (run calls w))" if "db_inv (disk w)"
    using that by (rule run_inv)
  ultimately show ?thesis by (simp add: db_inv_def)
qed

text \<open>An instance in which an open and a click are recorded.\<close>

theorem kind_link_invariant_witness:
  "db_inv (disk ready) \<and>
   map (\<lambda>ev. (ev_event_type ev, ev_email_id ev, ev_link_id ev))
       (rows_of (events (disk (run session ready)))) =
     [(Open, ''x'', None), (Click, ''x'', Some ''0000000100'')] \<and>
   kind_link_inv (disk (run session ready))"
proof -
  have h: "db_inv (disk ready)" by (simp add: ready_def ready_db_def db_inv_iff)
  have e: "map (\<lambda>ev. (ev_event_type ev, ev_email_id ev, ev_link_id ev))
       (rows_of (events (disk (run session ready)))) =
     [(Open, ''x'', None), (Click, ''x'', Some ''0000000100'')]" by code_simp
  from kind_link_invariant [of ready session] h e show ?thesis by blast
qed

end
